theory Spec2Isabelle
  imports Complex_Main "HOL-Library.Char_ord" "HOL-Library.List_Lexorder"
    "HOL-Library.Multiset"
begin

section \<open>JavaScript values and built-ins used by the server\<close>

text \<open>
  Strings are lists of bytes (the UTF-8 text of the JavaScript string). Numbers that the
  server reads from the hosting API (star counts, fork counts, byte counts) are integers
  there and are modelled as \<open>int\<close>; the model is exact while they stay inside the
  safe-integer range of a JavaScript number.
\<close>

datatype json =
    JNull
  | JBool bool
  | JNum int
  | JStr string
  | JArr "json list"
  | JObj "(string \<times> json) list"

text \<open>A thrown value: an \<open>Error\<close> object with its \<open>name\<close> and its \<open>message\<close>.\<close>

datatype js_error = JsError (error_name: string) (error_message: string)

text \<open>\<open>String(err)\<close>, that is \<open>Error.prototype.toString\<close>.\<close>

definition error_text :: "js_error \<Rightarrow> string" where
  "error_text e =
     (if error_name e = [] then error_message e
      else if error_message e = [] then error_name e
      else error_name e @ '': '' @ error_message e)"

text \<open>
  What the engine itself throws. The texts of these errors are the engine's own, so the
  host supplies them.
\<close>

datatype engine_fault =
    NotPrimitive
  | BadMethodCall "json option" string
  | PropertyOfUndefined string
  | InheritedCall string json

text \<open>
  The parts of the JavaScript host whose result depends on Unicode tables, on the locale
  of the process or on the engine: \<open>String.prototype.toLowerCase\<close>,
  \<open>String.prototype.localeCompare\<close>, the error thrown at an engine fault, and the text
  that string concatenation gives a member of \<open>Object.prototype\<close>. They are parameters
  of the model.
\<close>

record host =
  toLowerCase :: "string \<Rightarrow> string"
  localeCompare :: "string \<Rightarrow> string \<Rightarrow> int"
  throws :: "engine_fault \<Rightarrow> js_error"
  member_text :: "string \<Rightarrow> string"

subsection \<open>Decimal text of integers\<close>

definition digit_char :: "nat \<Rightarrow> char" where
  "digit_char d = ''0123456789'' ! (d mod 10)"

fun nat_digits :: "nat \<Rightarrow> string" where
  "nat_digits n =
     (if n < 10 then [digit_char n] else nat_digits (n div 10) @ [digit_char (n mod 10)])"

declare nat_digits.simps [simp del]

definition int_text :: "int \<Rightarrow> string" where
  "int_text i = (if i < 0 then CHR ''-'' # nat_digits (nat (- i)) else nat_digits (nat i))"

subsection \<open>Truthiness, property reads, conversion to string\<close>

text \<open>The argument is \<open>None\<close> for \<open>undefined\<close>.\<close>

fun truthy :: "json option \<Rightarrow> bool" where
  "truthy None = False"
| "truthy (Some JNull) = False"
| "truthy (Some (JBool b)) = b"
| "truthy (Some (JNum n)) = (n \<noteq> 0)"
| "truthy (Some (JStr s)) = (s \<noteq> [])"
| "truthy (Some (JArr xs)) = True"
| "truthy (Some (JObj kvs)) = True"

text \<open>
  The members that every object literal inherits from \<open>Object.prototype\<close>.
\<close>

definition object_prototype_members :: "string list" where
  "object_prototype_members =
     [''constructor'', ''__defineGetter__'', ''__defineSetter__'', ''hasOwnProperty'',
      ''__lookupGetter__'', ''__lookupSetter__'', ''isPrototypeOf'',
      ''propertyIsEnumerable'', ''toString'', ''valueOf'', ''__proto__'',
      ''toLocaleString'']"

text \<open>
  \<open>value.key\<close> for a value that was parsed from JSON, for the keys that the server reads
  (\<open>include_forks\<close>, \<open>sort\<close>, \<open>repo_name\<close>, \<open>query\<close>, \<open>args\<close>): none of them is
  inherited by an object or a primitive, and the one an array inherits (\<open>sort\<close>, a
  function) is only compared with strings, so the read gives the own property or
  \<open>undefined\<close>.
\<close>

fun own_property :: "json \<Rightarrow> string \<Rightarrow> json option" where
  "own_property (JObj kvs) k = map_of kvs k"
| "own_property v k = None"

text \<open>
  \<open>ToString\<close> of a value inside a template literal. An object answers
  \<open>[object Object]\<close> through the inherited \<open>toString\<close>, unless an own property hides
  that method: then no primitive can be had and the engine throws. An array joins its
  elements with commas, \<open>null\<close> giving the empty string.
\<close>

fun js_ToString :: "host \<Rightarrow> json \<Rightarrow> js_error + string"
  and js_join :: "host \<Rightarrow> json list \<Rightarrow> js_error + string" where
  "js_ToString h JNull = Inr ''null''"
| "js_ToString h (JBool b) = Inr (if b then ''true'' else ''false'')"
| "js_ToString h (JNum n) = Inr (int_text n)"
| "js_ToString h (JStr s) = Inr s"
| "js_ToString h (JArr xs) = js_join h xs"
| "js_ToString h (JObj kvs) =
     (if map_of kvs ''toString'' \<noteq> None then Inl (throws h NotPrimitive)
      else Inr ''[object Object]'')"
| "js_join h [] = Inr []"
| "js_join h (x # xs) =
     (case (if x = JNull then Inr [] else js_ToString h x) of
        Inl e \<Rightarrow> Inl e
      | Inr s \<Rightarrow>
          (if xs = [] then Inr s
           else (case js_join h xs of Inl e \<Rightarrow> Inl e | Inr t \<Rightarrow> Inr (s @ '','' @ t))))"

text \<open>\<open>`${value}`\<close> where the value may be \<open>undefined\<close>.\<close>

definition template_text :: "host \<Rightarrow> json option \<Rightarrow> js_error + string" where
  "template_text h v = (case v of None \<Rightarrow> Inr ''undefined'' | Some j \<Rightarrow> js_ToString h j)"

text \<open>
  \<open>haystack.includes(needle)\<close>: the needle starts at some position of the haystack.
\<close>

fun js_includes :: "string \<Rightarrow> string \<Rightarrow> bool" where
  "js_includes [] q = (q = [])"
| "js_includes (c # cs) q = (take (length q) (c # cs) = q \<or> js_includes cs q)"

subsection \<open>\<open>Array.prototype.sort\<close>\<close>

text \<open>
  \<open>Array.prototype.sort(comparefn)\<close>: the language guarantees a stable sort, so for a
  consistent comparator the result is the one list that is ordered by the comparator and
  keeps the input order of elements that compare equal. The model walks the array from
  the right and puts each element in front of the first element that it does not follow.
  For a comparator that is not consistent the language leaves the order to the engine;
  the model still returns a permutation.
\<close>

fun js_sort_place :: "('a \<Rightarrow> 'a \<Rightarrow> int) \<Rightarrow> 'a \<Rightarrow> 'a list \<Rightarrow> 'a list" where
  "js_sort_place cmp x [] = [x]"
| "js_sort_place cmp x (y # ys) =
     (if 0 < cmp x y then y # js_sort_place cmp x ys else x # y # ys)"

fun js_sort :: "('a \<Rightarrow> 'a \<Rightarrow> int) \<Rightarrow> 'a list \<Rightarrow> 'a list" where
  "js_sort cmp [] = []"
| "js_sort cmp (x # xs) = js_sort_place cmp x (js_sort cmp xs)"

text \<open>A comparator is consistent when "does not follow" is a total preorder.\<close>

definition consistent_comparator :: "('a \<Rightarrow> 'a \<Rightarrow> int) \<Rightarrow> bool" where
  "consistent_comparator cmp \<longleftrightarrow>
     (\<forall>a b. cmp a b \<le> 0 \<or> cmp b a \<le> 0) \<and>
     (\<forall>a b c. cmp a b \<le> 0 \<longrightarrow> cmp b c \<le> 0 \<longrightarrow> cmp a c \<le> 0)"

subsection \<open>Own properties of an object and their enumeration order\<close>

text \<open>
  An object is the list of its own properties in creation order, each key once.
  \<open>Object.keys\<close>, \<open>Object.values\<close> and \<open>Object.entries\<close> enumerate the keys that are
  array indices first, in ascending numeric order, and then the other keys in creation
  order. An array index is the canonical decimal text of an integer below \<open>2^32 - 1\<close>.
\<close>

definition is_digit :: "char \<Rightarrow> bool" where
  "is_digit c \<longleftrightarrow> c \<in> set ''0123456789''"

definition digits_value :: "string \<Rightarrow> int" where
  "digits_value s = foldl (\<lambda>a c. 10 * a + (of_char c - 48)) 0 s"

definition is_array_index :: "string \<Rightarrow> bool" where
  "is_array_index s \<longleftrightarrow>
     s \<noteq> [] \<and> list_all is_digit s \<and> (s = ''0'' \<or> hd s \<noteq> CHR ''0'') \<and>
     digits_value s < 4294967295"

definition object_entries :: "(string \<times> 'v) list \<Rightarrow> (string \<times> 'v) list" where
  "object_entries props =
     sort_key (\<lambda>kv. digits_value (fst kv)) (filter (\<lambda>kv. is_array_index (fst kv)) props)
     @ filter (\<lambda>kv. \<not> is_array_index (fst kv)) props"

text \<open>Writing an own data property: in place when the key exists, at the end otherwise.\<close>

fun put_property :: "(string \<times> 'v) list \<Rightarrow> string \<Rightarrow> 'v \<Rightarrow> (string \<times> 'v) list" where
  "put_property [] k v = [(k, v)]"
| "put_property ((k', v') # props) k v =
     (if k' = k then (k, v) # props else (k', v') # put_property props k v)"

subsection \<open>\<open>JSON.stringify(value, null, 2)\<close>\<close>

definition hex_char :: "nat \<Rightarrow> char" where
  "hex_char d = ''0123456789abcdef'' ! (d mod 16)"

definition json_quote_char :: "char \<Rightarrow> string" where
  "json_quote_char c =
     (if c = CHR 0x22 then [CHR 0x5C, CHR 0x22]
      else if c = CHR 0x5C then [CHR 0x5C, CHR 0x5C]
      else if c = CHR 0x08 then [CHR 0x5C, CHR ''b'']
      else if c = CHR 0x09 then [CHR 0x5C, CHR ''t'']
      else if c = CHR 0x0A then [CHR 0x5C, CHR ''n'']
      else if c = CHR 0x0C then [CHR 0x5C, CHR ''f'']
      else if c = CHR 0x0D then [CHR 0x5C, CHR ''r'']
      else if (of_char c :: nat) < 32
        then [CHR 0x5C, CHR ''u'', CHR ''0'', CHR ''0'',
              hex_char (of_char c div 16), hex_char (of_char c mod 16)]
      else [c])"

definition json_quote :: "string \<Rightarrow> string" where
  "json_quote s = CHR 0x22 # concat (map json_quote_char s) @ [CHR 0x22]"

fun join_with :: "string \<Rightarrow> string list \<Rightarrow> string" where
  "join_with sep [] = []"
| "join_with sep [s] = s"
| "join_with sep (s # t # ts) = s @ sep @ join_with sep (t # ts)"

text \<open>
  The first argument is the current indentation. The properties of an object are printed
  in the order of the list: every object that the server prints is built with keys that
  are no array indices, so this is their enumeration order.
\<close>

fun stringify_at :: "string \<Rightarrow> json \<Rightarrow> string" where
  "stringify_at ind JNull = ''null''"
| "stringify_at ind (JBool b) = (if b then ''true'' else ''false'')"
| "stringify_at ind (JNum n) = int_text n"
| "stringify_at ind (JStr s) = json_quote s"
| "stringify_at ind (JArr xs) =
     (if xs = [] then ''[]''
      else ''['' @ [CHR 0x0A] @ ind @ ''  ''
           @ join_with ('','' @ [CHR 0x0A] @ ind @ ''  '')
               (map (stringify_at (ind @ ''  '')) xs)
           @ [CHR 0x0A] @ ind @ '']'')"
| "stringify_at ind (JObj kvs) =
     (if kvs = [] then ''{}''
      else ''{'' @ [CHR 0x0A] @ ind @ ''  ''
           @ join_with ('','' @ [CHR 0x0A] @ ind @ ''  '')
               (map (\<lambda>kv. json_quote (fst kv) @ '': '' @ stringify_at (ind @ ''  '') (snd kv)) kvs)
           @ [CHR 0x0A] @ ind @ ''}'')"

definition JSON_stringify :: "json \<Rightarrow> string" where
  "JSON_stringify v = stringify_at [] v"

section \<open>Configuration and start-up\<close>

text \<open>The process environment: \<open>process.env.X\<close> is \<open>undefined\<close> or a string.\<close>

type_synonym environment = "string \<Rightarrow> string option"

record config =
  GITHUB_USERNAME :: string

definition load_config :: "environment \<Rightarrow> config" where
  "load_config env =
     \<lparr>GITHUB_USERNAME =
        (case env ''GITHUB_USERNAME'' of None \<Rightarrow> ''bdbrown4'' | Some u \<Rightarrow> u)\<rparr>"


definition truthy_text :: "string option \<Rightarrow> bool" where
  "truthy_text v = truthy (map_option JStr v)"












section \<open>The hosting API\<close>

record GHUser =
  login :: string
  name :: "string option"
  bio :: "string option"
  html_url :: string
  avatar_url :: string
  location :: "string option"
  company :: "string option"
  blog :: string
  public_repos :: int
  followers :: int
  following :: int

record GHRepo =
  name :: string
  full_name :: string
  html_url :: string
  description :: "string option"
  language :: "string option"
  stargazers_count :: int
  forks_count :: int
  topics :: "string list"
  fork :: bool
  created_at :: string
  updated_at :: string
  pushed_at :: string

text \<open>
  The outcome of one \<open>fetch\<close>: the promise rejects (no response at all), or a response
  arrives with its status, its status text and the outcome of reading its body
  (\<open>res.json()\<close>, \<open>res.text()\<close>).
\<close>

datatype 'a fetched =
    Rejected js_error
  | Response nat string "js_error + 'a"

definition response_ok :: "nat \<Rightarrow> bool" where
  "response_ok code \<longleftrightarrow> 200 \<le> code \<and> code \<le> 299"

text \<open>
  The state of the hosting API at one moment: what a GET of a path (after the fixed base
  \<open>https://api.github.com\<close>) answers, with the body already in the shape the caller
  casts it to. An object body is the list of its own properties.
\<close>

record upstream =
  repo_lists :: "string \<Rightarrow> GHRepo list fetched"
  repo_objects :: "string \<Rightarrow> GHRepo fetched"
  language_maps :: "string \<Rightarrow> (string \<times> int) list fetched"
  user_objects :: "string \<Rightarrow> GHUser fetched"
  raw_texts :: "string \<Rightarrow> string fetched"

definition ghFetch :: "(string \<Rightarrow> 'a fetched) \<Rightarrow> string \<Rightarrow> js_error + 'a" where
  "ghFetch endpoint path =
     (case endpoint path of
        Rejected e \<Rightarrow> Inl e
      | Response code statusText content \<Rightarrow>
          if response_ok code then content
          else Inl (JsError ''Error''
                 (''GitHub API '' @ nat_digits code @ '': '' @ statusText
                  @ [CHR 0x20, CHR 0xE2, CHR 0x80, CHR 0x94, CHR 0x20] @ path)))"

definition json_of_text :: "string option \<Rightarrow> json" where
  "json_of_text v = (case v of None \<Rightarrow> JNull | Some s \<Rightarrow> JStr s)"

section \<open>Tool handlers\<close>

text \<open>
  Every handler takes the host, the configuration, the state of the hosting API and its
  argument object, and gives the text it resolves to or the error it rejects with. The
  argument object is a JSON value: the schema of the structured protocol has validated
  it, the REST proxy passes it on as it came.
\<close>

subsection \<open>\<open>handleListRepos\<close>\<close>

text \<open>
  The value of the variable \<open>filtered\<close> when \<open>handleListRepos\<close> builds its output:
  forks are dropped unless \<open>include_forks\<close> is truthy, then the array is sorted in place
  for \<open>stars\<close> and for \<open>name\<close>, and left alone otherwise.
\<close>

definition list_repos_filtered :: "host \<Rightarrow> json \<Rightarrow> GHRepo list \<Rightarrow> GHRepo list" where
  "list_repos_filtered h args repos =
     (let filtered = (if truthy (own_property args ''include_forks'') then repos
                      else filter (\<lambda>r. \<not> fork r) repos)
      in if own_property args ''sort'' = Some (JStr ''stars'')
           then js_sort (\<lambda>a b. stargazers_count b - stargazers_count a) filtered
         else if own_property args ''sort'' = Some (JStr ''name'')
           then js_sort (\<lambda>a b. localeCompare h (name a) (name b)) filtered
         else filtered)"

definition list_repos_entry :: "GHRepo \<Rightarrow> json" where
  "list_repos_entry r =
     JObj [(''name'', JStr (name r)),
           (''description'', json_of_text (description r)),
           (''language'', json_of_text (language r)),
           (''stars'', JNum (stargazers_count r)),
           (''forks'', JNum (forks_count r)),
           (''topics'', JArr (map JStr (topics r))),
           (''url'', JStr (html_url r)),
           (''updated'', JStr (updated_at r))]"

definition handleListRepos :: "host \<Rightarrow> config \<Rightarrow> upstream \<Rightarrow> json \<Rightarrow> js_error + string" where
  "handleListRepos h cfg up args =
     (case ghFetch (repo_lists up)
             (''/users/'' @ GITHUB_USERNAME cfg @ ''/repos?per_page=100&sort=updated'') of
        Inl e \<Rightarrow> Inl e
      | Inr repos \<Rightarrow>
          Inr (JSON_stringify (JArr (map list_repos_entry (list_repos_filtered h args repos)))))"

subsection \<open>\<open>handleGetRepoDetails\<close>\<close>

text \<open>
  The README step: the placeholder stays unless a response arrives, is ok, and its text
  can be read. Nothing that goes wrong here leaves the \<open>try\<close> block.
\<close>

definition fetch_readme :: "upstream \<Rightarrow> string \<Rightarrow> string" where
  "fetch_readme up path =
     (case raw_texts up path of
        Rejected e \<Rightarrow> ''(No README found)''
      | Response code statusText content \<Rightarrow>
          if response_ok code
          then (case content of Inl e \<Rightarrow> ''(No README found)'' | Inr text \<Rightarrow> text)
          else ''(No README found)'')"

definition repo_details_entry :: "GHRepo \<Rightarrow> json" where
  "repo_details_entry r =
     JObj [(''name'', JStr (name r)),
           (''full_name'', JStr (full_name r)),
           (''description'', json_of_text (description r)),
           (''language'', json_of_text (language r)),
           (''stars'', JNum (stargazers_count r)),
           (''forks'', JNum (forks_count r)),
           (''topics'', JArr (map JStr (topics r))),
           (''url'', JStr (html_url r)),
           (''created'', JStr (created_at r)),
           (''updated'', JStr (updated_at r)),
           (''pushed'', JStr (pushed_at r))]"

definition handleGetRepoDetails :: "host \<Rightarrow> config \<Rightarrow> upstream \<Rightarrow> json \<Rightarrow> js_error + string" where
  "handleGetRepoDetails h cfg up args =
     (case template_text h (own_property args ''repo_name'') of
        Inl e \<Rightarrow> Inl e
      | Inr repo_name \<Rightarrow>
          (case ghFetch (repo_objects up) (''/repos/'' @ GITHUB_USERNAME cfg @ ''/'' @ repo_name) of
             Inl e \<Rightarrow> Inl e
           | Inr repo \<Rightarrow>
               (let readme = fetch_readme up
                               (''/repos/'' @ GITHUB_USERNAME cfg @ ''/'' @ repo_name @ ''/readme'')
                in Inr (''## Repository: '' @ name repo @ [CHR 0x0A, CHR 0x0A]
                        @ JSON_stringify (repo_details_entry repo)
                        @ [CHR 0x0A, CHR 0x0A] @ ''## README'' @ [CHR 0x0A, CHR 0x0A] @ readme))))"

subsection \<open>\<open>handleGetLanguages\<close>\<close>

text \<open>
  The percentage is computed in double precision. A non-negative double is held as a
  pair \<open>(m, e)\<close> that stands for \<open>m * 2^e\<close>. \<open>double_of_ratio n d\<close> is the double nearest
  to \<open>n / d\<close> (ties to the even mantissa): the quotient is scaled into
  \<open>[2^52, 2^53)\<close> and rounded to an integer. The exponent range of a double is not
  modelled: it is never left while byte counts stay below \<open>2^53\<close>.
\<close>

fun bit_length :: "nat \<Rightarrow> nat" where
  "bit_length n = (if n = 0 then 0 else Suc (bit_length (n div 2)))"

declare bit_length.simps [simp del]

definition round_half_even :: "nat \<Rightarrow> nat \<Rightarrow> nat" where
  "round_half_even n d =
     (let m = n div d; r = n mod d
      in if d < 2 * r \<or> (2 * r = d \<and> odd m) then m + 1 else m)"

definition double_of_ratio :: "nat \<Rightarrow> nat \<Rightarrow> nat \<times> int" where
  "double_of_ratio n d =
     (if n = 0 then (0, 0)
      else
        (let s = 53 + int (bit_length d) - int (bit_length n);
             n' = n * 2 ^ nat s;
             d' = d * 2 ^ nat (- s)
         in if n' < d' * 2 ^ 53 then (round_half_even n' d', - s)
            else (round_half_even n' (2 * d'), 1 - s)))"

definition double_value :: "nat \<times> int \<Rightarrow> rat" where
  "double_value x = of_nat (fst x) * 2 powi (snd x)"

text \<open>\<open>x * 100\<close> for a double \<open>x\<close>: the exact product, rounded.\<close>

definition times_100 :: "nat \<times> int \<Rightarrow> nat \<times> int" where
  "times_100 x = (let y = double_of_ratio (100 * fst x) 1 in (fst y, snd y + snd x))"

text \<open>
  \<open>x.toFixed(1)\<close> for a double \<open>x \<ge> 0\<close> below \<open>10^21\<close>: the integer \<open>n\<close> with \<open>n / 10\<close>
  nearest to \<open>x\<close>, the larger one of two, written with one digit after the point.
\<close>

definition tenths :: "nat \<times> int \<Rightarrow> nat" where
  "tenths x =
     (if 0 \<le> snd x then 10 * fst x * 2 ^ nat (snd x)
      else (20 * fst x + 2 ^ nat (- snd x)) div (2 * 2 ^ nat (- snd x)))"

definition toFixed_1 :: "nat \<times> int \<Rightarrow> string" where
  "toFixed_1 x = nat_digits (tenths x div 10) @ ''.'' @ [digit_char (tenths x mod 10)]"

text \<open>
  The magnitude of \<open>(bytes / total) * 100\<close> for \<open>total > 0\<close>; \<open>total_bytes\<close> is the source's \<open>total\<close>.
\<close>

definition percent_double :: "int \<Rightarrow> int \<Rightarrow> nat \<times> int" where
  "percent_double bytes total_bytes =
     times_100 (double_of_ratio (nat \<bar>bytes\<bar>) (nat total_bytes))"

definition percentage :: "int \<Rightarrow> int \<Rightarrow> string" where
  "percentage bytes total_bytes =
     (if 0 < total_bytes
      then (if bytes < 0 then ''-'' else [])
           @ toFixed_1 (percent_double bytes total_bytes) @ ''%''
      else ''0%'')"

definition languages_total :: "(string \<times> int) list \<Rightarrow> int" where
  "languages_total languages = foldl (\<lambda>a b. a + b) 0 (map snd (object_entries languages))"

definition languages_entry :: "int \<Rightarrow> string \<times> int \<Rightarrow> json" where
  "languages_entry total_bytes kv =
     JObj [(''language'', JStr (fst kv)),
           (''bytes'', JNum (snd kv)),
           (''percentage'', JStr (percentage (snd kv) total_bytes))]"

definition handleGetLanguages :: "host \<Rightarrow> config \<Rightarrow> upstream \<Rightarrow> json \<Rightarrow> js_error + string" where
  "handleGetLanguages h cfg up args =
     (case template_text h (own_property args ''repo_name'') of
        Inl e \<Rightarrow> Inl e
      | Inr repo_name \<Rightarrow>
          (case ghFetch (language_maps up)
                  (''/repos/'' @ GITHUB_USERNAME cfg @ ''/'' @ repo_name @ ''/languages'') of
             Inl e \<Rightarrow> Inl e
           | Inr languages \<Rightarrow>
               Inr (JSON_stringify
                      (JArr (map (languages_entry (languages_total languages))
                                 (object_entries languages))))))"

subsection \<open>\<open>handleGetProfile\<close>\<close>

definition profile_entry :: "GHUser \<Rightarrow> json" where
  "profile_entry user =
     JObj [(''username'', JStr (login user)),
           (''name'', json_of_text (GHUser.name user)),
           (''bio'', json_of_text (bio user)),
           (''location'', json_of_text (location user)),
           (''company'', json_of_text (company user)),
           (''website'', JStr (blog user)),
           (''avatar'', JStr (avatar_url user)),
           (''github_url'', JStr (GHUser.html_url user)),
           (''public_repos'', JNum (public_repos user)),
           (''followers'', JNum (followers user)),
           (''following'', JNum (following user))]"

definition handleGetProfile :: "host \<Rightarrow> config \<Rightarrow> upstream \<Rightarrow> js_error + string" where
  "handleGetProfile h cfg up =
     (case ghFetch (user_objects up) (''/users/'' @ GITHUB_USERNAME cfg) of
        Inl e \<Rightarrow> Inl e
      | Inr user \<Rightarrow> Inr (JSON_stringify (profile_entry user)))"

subsection \<open>\<open>handleSearchRepos\<close>\<close>

definition search_matches :: "host \<Rightarrow> string \<Rightarrow> GHRepo list \<Rightarrow> GHRepo list" where
  "search_matches h q repos =
     filter (\<lambda>r. js_includes (toLowerCase h (name r)) q
                \<or> (case description r of
                      None \<Rightarrow> False
                    | Some d \<Rightarrow> js_includes (toLowerCase h d) q)
                \<or> list_ex (\<lambda>t. js_includes (toLowerCase h t) q) (topics r))
            repos"

definition search_entry :: "GHRepo \<Rightarrow> json" where
  "search_entry r =
     JObj [(''name'', JStr (name r)),
           (''description'', json_of_text (description r)),
           (''language'', json_of_text (language r)),
           (''url'', JStr (html_url r))]"

text \<open>
  \<open>args.query.toLowerCase()\<close> runs after the fetch; on anything but a string the engine
  throws.
\<close>

definition handleSearchRepos :: "host \<Rightarrow> config \<Rightarrow> upstream \<Rightarrow> json \<Rightarrow> js_error + string" where
  "handleSearchRepos h cfg up args =
     (case ghFetch (repo_lists up) (''/users/'' @ GITHUB_USERNAME cfg @ ''/repos?per_page=100'') of
        Inl e \<Rightarrow> Inl e
      | Inr repos \<Rightarrow>
          (case own_property args ''query'' of
             Some (JStr query) \<Rightarrow>
               (let matches = search_matches h (toLowerCase h query) repos
                in if 0 < length matches
                   then Inr (JSON_stringify (JArr (map search_entry matches)))
                   else Inr (''No repositories matched '' @ [CHR 0x22] @ query @ [CHR 0x22] @ ''.''))
           | other \<Rightarrow> Inl (throws h (BadMethodCall other ''toLowerCase''))))"

subsection \<open>\<open>handleGetTechStackSummary\<close>\<close>

text \<open>
  The counters \<open>langCounts\<close> and \<open>topicCounts\<close> are object literals, so they inherit
  the members of \<open>Object.prototype\<close>. \<open>(counts[k] ?? 0) + 1\<close> reads the own property,
  else the inherited member, else \<open>undefined\<close>: a number is incremented, \<open>undefined\<close>
  gives 1, and anything else is joined with \<open>1\<close> as text. The assignment creates or
  overwrites an own property, except for \<open>__proto__\<close>, whose setter ignores a value that
  is not an object.
\<close>

datatype tally = Count nat | Text string

definition counter_increment ::
  "host \<Rightarrow> (string \<times> tally) list \<Rightarrow> string \<Rightarrow> (string \<times> tally) list" where
  "counter_increment h counts k =
     (case map_of counts k of
        Some (Count n) \<Rightarrow> put_property counts k (Count (n + 1))
      | Some (Text s) \<Rightarrow> put_property counts k (Text (s @ ''1''))
      | None \<Rightarrow>
          if k \<in> set object_prototype_members
          then (if k = ''__proto__'' then counts
                else put_property counts k (Text (member_text h k @ ''1'')))
          else put_property counts k (Count 1))"

text \<open>One turn of the loop over the original repositories, on both counters.\<close>

definition tally_repo ::
  "host \<Rightarrow> (string \<times> tally) list \<times> (string \<times> tally) list \<Rightarrow> GHRepo
     \<Rightarrow> (string \<times> tally) list \<times> (string \<times> tally) list" where
  "tally_repo h counts repo =
     ((if truthy_text (language repo)
       then counter_increment h (fst counts) (the (language repo))
       else fst counts),
      foldl (counter_increment h) (snd counts) (topics repo))"

definition tally_counts ::
  "host \<Rightarrow> GHRepo list \<Rightarrow> (string \<times> tally) list \<times> (string \<times> tally) list" where
  "tally_counts h originals = foldl (tally_repo h) ([], []) originals"

text \<open>
  The comparator \<open>([, a], [, b]) => b - a\<close>: a difference with a text that is no number
  is \<open>NaN\<close>, which \<open>sort\<close> reads as zero.
\<close>

definition tally_compare :: "string \<times> tally \<Rightarrow> string \<times> tally \<Rightarrow> int" where
  "tally_compare x y =
     (case snd x of
        Count a \<Rightarrow> (case snd y of Count b \<Rightarrow> int b - int a | Text t \<Rightarrow> 0)
      | Text s \<Rightarrow> 0)"

definition sorted_counts :: "(string \<times> tally) list \<Rightarrow> (string \<times> tally) list" where
  "sorted_counts counts = js_sort tally_compare (object_entries counts)"

definition json_of_tally :: "tally \<Rightarrow> json" where
  "json_of_tally t = (case t of Count n \<Rightarrow> JNum (int n) | Text s \<Rightarrow> JStr s)"

definition tech_stack_languages :: "host \<Rightarrow> GHRepo list \<Rightarrow> (string \<times> tally) list" where
  "tech_stack_languages h repos =
     sorted_counts (fst (tally_counts h (filter (\<lambda>r. \<not> fork r) repos)))"

definition tech_stack_topics :: "host \<Rightarrow> GHRepo list \<Rightarrow> (string \<times> tally) list" where
  "tech_stack_topics h repos =
     sorted_counts (snd (tally_counts h (filter (\<lambda>r. \<not> fork r) repos)))"

definition tech_stack_summary :: "host \<Rightarrow> GHRepo list \<Rightarrow> json" where
  "tech_stack_summary h repos =
     JObj [(''total_original_repos'', JNum (int (length (filter (\<lambda>r. \<not> fork r) repos)))),
           (''languages'',
              JArr (map (\<lambda>kv. JObj [(''language'', JStr (fst kv)),
                                     (''repo_count'', json_of_tally (snd kv))])
                        (tech_stack_languages h repos))),
           (''topics'',
              JArr (map (\<lambda>kv. JObj [(''topic'', JStr (fst kv)),
                                     (''repo_count'', json_of_tally (snd kv))])
                        (tech_stack_topics h repos)))]"

definition handleGetTechStackSummary :: "host \<Rightarrow> config \<Rightarrow> upstream \<Rightarrow> js_error + string" where
  "handleGetTechStackSummary h cfg up =
     (case ghFetch (repo_lists up) (''/users/'' @ GITHUB_USERNAME cfg @ ''/repos?per_page=100'') of
        Inl e \<Rightarrow> Inl e
      | Inr repos \<Rightarrow> Inr (JSON_stringify (tech_stack_summary h repos)))"

section \<open>The tool registry and the REST proxy\<close>

definition TOOL_REGISTRY ::
  "host \<Rightarrow> config \<Rightarrow> upstream \<Rightarrow> (string \<times> (json \<Rightarrow> js_error + string)) list" where
  "TOOL_REGISTRY h cfg up =
     [(''list_repos'', \<lambda>a. handleListRepos h cfg up a),
      (''get_repo_details'', \<lambda>a. handleGetRepoDetails h cfg up a),
      (''get_languages'', \<lambda>a. handleGetLanguages h cfg up a),
      (''get_profile'', \<lambda>a. handleGetProfile h cfg up),
      (''search_repos'', \<lambda>a. handleSearchRepos h cfg up a),
      (''get_tech_stack_summary'', \<lambda>a. handleGetTechStackSummary h cfg up)]"

text \<open>
  \<open>TOOL_REGISTRY[toolName]\<close>: the registry is an object literal, so the read gives the
  own property, else the member inherited from \<open>Object.prototype\<close>, else \<open>undefined\<close>.
\<close>

datatype registry_value =
    Handler "json \<Rightarrow> js_error + string"
  | Inherited string
  | Undefined

definition registry_read ::
  "(string \<times> (json \<Rightarrow> js_error + string)) list \<Rightarrow> string \<Rightarrow> registry_value" where
  "registry_read registry k =
     (case map_of registry k of
        Some f \<Rightarrow> Handler f
      | None \<Rightarrow> if k \<in> set object_prototype_members then Inherited k else Undefined)"

text \<open>
  An inherited member called as \<open>handler(args)\<close>, with no receiver: \<open>Object\<close> (the
  member \<open>constructor\<close>) gives its argument back as an object, \<open>toString\<close> names the
  missing receiver, \<open>isPrototypeOf\<close> answers \<open>false\<close> to a primitive before it looks at
  the receiver; every other call throws (the accessor \<open>__proto__\<close> reads as an object,
  which is no function).
\<close>

fun is_primitive :: "json \<Rightarrow> bool" where
  "is_primitive (JArr xs) = False"
| "is_primitive (JObj kvs) = False"
| "is_primitive v = True"

definition call_inherited :: "host \<Rightarrow> string \<Rightarrow> json \<Rightarrow> js_error + json" where
  "call_inherited h k args =
     (if k = ''constructor'' then Inr (if args = JNull then JObj [] else args)
      else if k = ''toString'' then Inr (JStr ''[object Undefined]'')
      else if k = ''isPrototypeOf'' \<and> is_primitive args then Inr (JBool False)
      else Inl (throws h (InheritedCall k args)))"

record http_response =
  status :: nat
  body :: json

text \<open>
  \<open>(req.body).args ?? {}\<close>; the body is \<open>None\<close> when the framework left \<open>req.body\<close>
  undefined. Reading a property of \<open>undefined\<close> or \<open>null\<close> throws.
\<close>

definition request_args :: "host \<Rightarrow> json option \<Rightarrow> js_error + json" where
  "request_args h req_body =
     (case req_body of
        None \<Rightarrow> Inl (throws h (PropertyOfUndefined ''args''))
      | Some JNull \<Rightarrow> Inl (throws h (PropertyOfUndefined ''args''))
      | Some b \<Rightarrow>
          Inr (case own_property b ''args'' of
                 None \<Rightarrow> JObj []
               | Some JNull \<Rightarrow> JObj []
               | Some a \<Rightarrow> a))"

text \<open>
  What the \<open>try\<close> block of the route sends: 500 with the text of the error that was
  caught, or 200 with the handler's result in the content envelope.
\<close>

definition respond :: "js_error + json \<Rightarrow> http_response" where
  "respond outcome =
     (case outcome of
        Inl err \<Rightarrow> \<lparr>status = 500, body = JObj [(''error'', JStr (error_text err))]\<rparr>
      | Inr text \<Rightarrow>
          \<lparr>status = 200,
           body = JObj [(''content'',
                           JArr [JObj [(''type'', JStr ''text''), (''text'', text)]])]\<rparr>)"

text \<open>The route \<open>POST /call/:tool\<close>.\<close>

definition post_call ::
  "host \<Rightarrow> config \<Rightarrow> upstream \<Rightarrow> string \<Rightarrow> json option \<Rightarrow> http_response" where
  "post_call h cfg up toolName req_body =
     (case registry_read (TOOL_REGISTRY h cfg up) toolName of
        Undefined \<Rightarrow>
          \<lparr>status = 404,
           body = JObj [(''error'', JStr (''Unknown tool: '' @ toolName)),
                        (''available'',
                           JArr (map (\<lambda>kv. JStr (fst kv))
                                     (object_entries (TOOL_REGISTRY h cfg up))))]\<rparr>
      | Handler f \<Rightarrow>
          respond (case request_args h req_body of
                     Inl err \<Rightarrow> Inl err
                   | Inr args \<Rightarrow> map_sum id JStr (f args))
      | Inherited k \<Rightarrow>
          respond (case request_args h req_body of
                     Inl err \<Rightarrow> Inl err
                   | Inr args \<Rightarrow> call_inherited h k args))"

section \<open>A host and data for evaluation\<close>

text \<open>
  A host for ASCII text: letters \<open>A\<close> to \<open>Z\<close> are lowered, strings are compared
  byte by byte.
\<close>

definition ascii_lower :: "char \<Rightarrow> char" where
  "ascii_lower c =
     (case map_of (zip ''ABCDEFGHIJKLMNOPQRSTUVWXYZ'' ''abcdefghijklmnopqrstuvwxyz'') c of
        None \<Rightarrow> c
      | Some l \<Rightarrow> l)"

definition byte_compare :: "string \<Rightarrow> string \<Rightarrow> int" where
  "byte_compare a b = (if a < b then - 1 else if a = b then 0 else 1)"

definition ascii_host :: host where
  "ascii_host =
     \<lparr>toLowerCase = map ascii_lower,
      localeCompare = byte_compare,
      throws = (\<lambda>f. JsError ''TypeError'' ''engine fault''),
      member_text = (\<lambda>k. ''function '' @ k @ ''() { [native code] }'')\<rparr>"

definition repo_a :: GHRepo where
  "repo_a =
     \<lparr>name = ''a'', full_name = ''u/a'', html_url = ''https://github.com/u/a'',
      description = Some ''A CLI'', language = Some ''Go'', stargazers_count = 1,
      forks_count = 0, topics = [''cli''], fork = False,
      created_at = ''2024-01-01T00:00:00Z'', updated_at = ''2024-03-01T00:00:00Z'',
      pushed_at = ''2024-03-01T00:00:00Z''\<rparr>"

definition repo_b :: GHRepo where
  "repo_b = repo_a\<lparr>name := ''b'', fork := True, stargazers_count := 7\<rparr>"

definition repo_c :: GHRepo where
  "repo_c =
     repo_a\<lparr>name := ''c'', language := Some ''Rust'', topics := [], description := None,
            stargazers_count := 5\<rparr>"

definition sample_config :: config where
  "sample_config = \<lparr>GITHUB_USERNAME = ''u''\<rparr>"

text \<open>
  An API state in which every repository list holds the three sample repositories, the
  repository \<open>a\<close> exists and has no README, and nothing else is found.
\<close>

definition sample_upstream :: upstream where
  "sample_upstream =
     \<lparr>repo_lists = (\<lambda>p. Response 200 ''OK'' (Inr [repo_a, repo_b, repo_c])),
      repo_objects = (\<lambda>p. if p = ''/repos/u/a'' then Response 200 ''OK'' (Inr repo_a)
                            else Response 404 ''Not Found'' (Inl (JsError ''SyntaxError'' []))),
      language_maps = (\<lambda>p. Response 200 ''OK'' (Inr [(''Go'', 3), (''Shell'', 1)])),
      user_objects = (\<lambda>p. Response 404 ''Not Found'' (Inl (JsError ''SyntaxError'' []))),
      raw_texts = (\<lambda>p. Response 404 ''Not Found'' (Inr ''{}''))\<rparr>"

section \<open>Notions of the specification\<close>

text \<open>The query occurs as a substring: some text stands before it and some after it.\<close>

definition occurs_in :: "string \<Rightarrow> string \<Rightarrow> bool" where
  "occurs_in q s \<longleftrightarrow> (\<exists>u v. s = u @ q @ v)"

text \<open>
  A repository matches a query when the lowered query occurs in its lowered name, or in
  its lowered description (an absent description never matches), or in one of its
  lowered topics.
\<close>

definition matches_query :: "host \<Rightarrow> string \<Rightarrow> GHRepo \<Rightarrow> bool" where
  "matches_query h query r \<longleftrightarrow>
     occurs_in (toLowerCase h query) (toLowerCase h (name r)) \<or>
     (\<exists>d. description r = Some d \<and> occurs_in (toLowerCase h query) (toLowerCase h d)) \<or>
     (\<exists>t \<in> set (topics r). occurs_in (toLowerCase h query) (toLowerCase h t))"

text \<open>
  The README sub-fetch fails: no response arrives, or the response is not ok, or its text
  cannot be read.
\<close>

definition readme_fetch_failed :: "string fetched \<Rightarrow> bool" where
  "readme_fetch_failed f =
     (case f of
        Rejected e \<Rightarrow> True
      | Response code statusText content \<Rightarrow> (if response_ok code then isl content else True))"

text \<open>
  The keys in first-seen order: every key once, at the place of its first occurrence.
\<close>

definition first_seen :: "'a list \<Rightarrow> 'a list" where
  "first_seen ks = rev (remdups (rev ks))"

text \<open>
  The languages and the topics of the original repositories (those that are no fork),
  in upstream order: one entry for each repository with a language, and one entry for
  each topic that a repository lists.
\<close>

definition original_languages :: "GHRepo list \<Rightarrow> string list" where
  "original_languages repos =
     map (\<lambda>r. the (language r))
       (filter (\<lambda>r. truthy_text (language r)) (filter (\<lambda>r. \<not> fork r) repos))"

definition original_topics :: "GHRepo list \<Rightarrow> string list" where
  "original_topics repos = concat (map topics (filter (\<lambda>r. \<not> fork r) repos))"

text \<open>The count of an entry, as a number; a text counts as nothing.\<close>

definition tally_number :: "tally \<Rightarrow> nat" where
  "tally_number t = (case t of Count n \<Rightarrow> n | Text s \<Rightarrow> 0)"


section \<open>Properties of \<open>js_sort\<close>\<close>

lemma set_js_sort_place: "set (js_sort_place cmp x ys) = insert x (set ys)"
  by (induction ys) auto

lemma set_js_sort: "set (js_sort cmp xs) = set xs"
  by (induction xs) (simp_all add: set_js_sort_place)

lemma length_js_sort_place: "length (js_sort_place cmp x ys) = Suc (length ys)"
  by (induction ys) auto

lemma length_js_sort: "length (js_sort cmp xs) = length xs"
  by (induction xs) (simp_all add: length_js_sort_place)

lemma sorted_js_sort_place:
  assumes "consistent_comparator cmp"
    and "sorted_wrt (\<lambda>a b. cmp a b \<le> 0) ys"
  shows "sorted_wrt (\<lambda>a b. cmp a b \<le> 0) (js_sort_place cmp x ys)"
  using assms(2)
proof (induction ys)
  case Nil
  show ?case by simp
next
  case (Cons y ys)
  have total: "\<And>a b. cmp a b \<le> 0 \<or> cmp b a \<le> 0"
    and trans: "\<And>a b c. cmp a b \<le> 0 \<Longrightarrow> cmp b c \<le> 0 \<Longrightarrow> cmp a c \<le> 0"
    using assms(1) unfolding consistent_comparator_def by blast+
  show ?case
  proof (cases "0 < cmp x y")
    case True
    then have yx: "cmp y x \<le> 0" using total [of x y] by simp
    have "\<forall>z \<in> set (js_sort_place cmp x ys). cmp y z \<le> 0"
      using Cons.prems yx by (auto simp: set_js_sort_place)
    moreover have "sorted_wrt (\<lambda>a b. cmp a b \<le> 0) (js_sort_place cmp x ys)"
      using Cons by simp
    ultimately show ?thesis using True by simp
  next
    case False
    then have xy: "cmp x y \<le> 0" by simp
    have "\<forall>z \<in> set ys. cmp x z \<le> 0"
      using Cons.prems xy trans by auto
    then show ?thesis using False xy Cons.prems by simp
  qed
qed

lemma sorted_js_sort:
  "consistent_comparator cmp \<Longrightarrow> sorted_wrt (\<lambda>a b. cmp a b \<le> 0) (js_sort cmp xs)"
  by (induction xs) (simp_all add: sorted_js_sort_place)




lemma handleListRepos_output:
  assumes "ghFetch (repo_lists up)
             (''/users/'' @ GITHUB_USERNAME cfg @ ''/repos?per_page=100&sort=updated'') = Inr repos"
  shows "handleListRepos h cfg up args =
           Inr (JSON_stringify (JArr (map list_repos_entry (list_repos_filtered h args repos))))"
  using assms by (simp add: handleListRepos_def)

text \<open>
  C1. With a falsy \<open>include_forks\<close> the list that \<open>handleListRepos\<close> prints holds no
  fork; with a truthy one it holds every repository name that the falsy call prints,
  whatever the sort keys of the two calls.
\<close>

theorem list_repos_forks:
  "(\<not> truthy (own_property args ''include_forks'') \<longrightarrow>
      (\<forall>r \<in> set (list_repos_filtered h args repos). \<not> fork r)) \<and>
   (truthy (own_property args_with ''include_forks'') \<and>
    \<not> truthy (own_property args ''include_forks'') \<longrightarrow>
      name ` set (list_repos_filtered h args repos)
        \<subseteq> name ` set (list_repos_filtered h args_with repos))"
  by (auto simp: list_repos_filtered_def Let_def set_js_sort)

theorem list_repos_forks_witness:
  "\<not> truthy (own_property (JObj []) ''include_forks'') \<and>
   truthy (own_property (JObj [(''include_forks'', JBool True)]) ''include_forks'') \<and>
   list_all (\<lambda>r. \<not> fork r)
     (list_repos_filtered ascii_host (JObj []) [repo_a, repo_b, repo_c]) \<and>
   name ` set (list_repos_filtered ascii_host (JObj []) [repo_a, repo_b, repo_c])
     \<subseteq> name ` set (list_repos_filtered ascii_host (JObj [(''include_forks'', JBool True)])
                      [repo_a, repo_b, repo_c])"
  using list_repos_forks [of "JObj []" ascii_host "[repo_a, repo_b, repo_c]"
      "JObj [(''include_forks'', JBool True)]"]
  by (simp add: list_all_iff)




lemma filter_js_sort_place:
  "P x \<Longrightarrow> \<forall>y \<in> set ys. P y \<longrightarrow> cmp x y \<le> 0 \<Longrightarrow>
   filter P (js_sort_place cmp x ys) = x # filter P ys"
  by (induction ys) auto

lemma filter_js_sort_place_other:
  "\<not> P x \<Longrightarrow> filter P (js_sort_place cmp x ys) = filter P ys"
  by (induction ys) auto

lemma filter_js_sort:
  "\<forall>x \<in> set xs. \<forall>y \<in> set xs. P x \<and> P y \<longrightarrow> cmp x y \<le> 0 \<Longrightarrow>
   filter P (js_sort cmp xs) = filter P xs"
proof (induction xs)
  case Nil
  show ?case by simp
next
  case (Cons x xs)
  then have ih: "filter P (js_sort cmp xs) = filter P xs" by simp
  show ?case
  proof (cases "P x")
    case True
    have "\<forall>y \<in> set (js_sort cmp xs). P y \<longrightarrow> cmp x y \<le> 0"
      using Cons.prems True by (simp add: set_js_sort)
    then show ?thesis using True ih by (simp add: filter_js_sort_place)
  next
    case False
    then show ?thesis using ih by (simp add: filter_js_sort_place_other)
  qed
qed



section \<open>Searching\<close>

lemma prefix_take_iff: "take (length q) s = q \<longleftrightarrow> (\<exists>v. s = q @ v)"
proof
  assume "take (length q) s = q"
  then have "s = q @ drop (length q) s" by (metis append_take_drop_id)
  then show "\<exists>v. s = q @ v" ..
next
  assume "\<exists>v. s = q @ v"
  then show "take (length q) s = q" by auto
qed

lemma js_includes_iff: "js_includes s q \<longleftrightarrow> occurs_in q s"
proof (induction s)
  case Nil
  show ?case by (auto simp: occurs_in_def)
next
  case (Cons c cs)
  have "occurs_in q (c # cs) \<longleftrightarrow> (\<exists>v. c # cs = q @ v) \<or> occurs_in q cs"
  proof
    assume "occurs_in q (c # cs)"
    then obtain u v where uv: "c # cs = u @ q @ v" unfolding occurs_in_def by blast
    show "(\<exists>v. c # cs = q @ v) \<or> occurs_in q cs"
    proof (cases u)
      case Nil
      with uv show ?thesis by auto
    next
      case (Cons a u')
      with uv have "cs = u' @ q @ v" by simp
      then show ?thesis unfolding occurs_in_def by blast
    qed
  next
    assume "(\<exists>v. c # cs = q @ v) \<or> occurs_in q cs"
    then show "occurs_in q (c # cs)"
    proof
      assume "\<exists>v. c # cs = q @ v"
      then obtain v where "c # cs = [] @ q @ v" by auto
      then show ?thesis unfolding occurs_in_def by blast
    next
      assume "occurs_in q cs"
      then obtain u v where "cs = u @ q @ v" unfolding occurs_in_def by blast
      then have "c # cs = (c # u) @ q @ v" by simp
      then show ?thesis unfolding occurs_in_def by blast
    qed
  qed
  then show ?case using Cons.IH prefix_take_iff [of q "c # cs"] by simp
qed

lemma search_matches_eq:
  "search_matches h (toLowerCase h query) repos = filter (matches_query h query) repos"
  unfolding search_matches_def matches_query_def
  by (rule filter_cong) (auto simp: js_includes_iff list_ex_iff split: option.splits)

text \<open>
  C4. When the repository list is fetched and the query is a string, \<open>handleSearchRepos\<close>
  resolves to the matching repositories, in upstream order, each projected to name,
  description, language and url; with no match it resolves to the sentence that quotes
  the query as it was given.
\<close>

theorem search_repos_output:
  assumes "ghFetch (repo_lists up) (''/users/'' @ GITHUB_USERNAME cfg @ ''/repos?per_page=100'')
             = Inr repos"
    and "own_property args ''query'' = Some (JStr query)"
  shows "handleSearchRepos h cfg up args =
           Inr (if filter (matches_query h query) repos = []
                then ''No repositories matched '' @ [CHR 0x22] @ query @ [CHR 0x22] @ ''.''
                else JSON_stringify
                       (JArr (map (\<lambda>r. JObj [(''name'', JStr (name r)),
                                               (''description'', json_of_text (description r)),
                                               (''language'', json_of_text (language r)),
                                               (''url'', JStr (html_url r))])
                                  (filter (matches_query h query) repos))))"
proof -
  have e: "search_entry = (\<lambda>r. JObj [(''name'', JStr (name r)),
                                      (''description'', json_of_text (description r)),
                                      (''language'', json_of_text (language r)),
                                      (''url'', JStr (html_url r))])"
    by (rule ext) (simp add: search_entry_def)
  show ?thesis
    using assms by (simp add: handleSearchRepos_def Let_def search_matches_eq e)
qed

lemma sample_lists: "ghFetch (repo_lists sample_upstream) p = Inr [repo_a, repo_b, repo_c]"
  by (simp add: ghFetch_def sample_upstream_def response_ok_def)

lemma lower_simps:
  "map ascii_lower ''CLI'' = ''cli''" "map ascii_lower ''cli'' = ''cli''"
  "map ascii_lower ''A CLI'' = ''a cli''" "map ascii_lower ''a'' = ''a''"
  "map ascii_lower ''b'' = ''b''" "map ascii_lower ''c'' = ''c''"
  "map ascii_lower ''xyz-no-match'' = ''xyz-no-match''"
  by (simp_all add: ascii_lower_def)

lemma sample_matches:
  "filter (matches_query ascii_host ''CLI'') [repo_a, repo_b, repo_c] = [repo_a, repo_b]"
  "filter (matches_query ascii_host ''xyz-no-match'') [repo_a, repo_b, repo_c] = []"
  unfolding search_matches_eq [symmetric]
  by (simp_all add: search_matches_def ascii_host_def lower_simps repo_a_def repo_b_def repo_c_def)

theorem search_repos_output_witness:
  "ghFetch (repo_lists sample_upstream)
     (''/users/'' @ GITHUB_USERNAME sample_config @ ''/repos?per_page=100'')
     = Inr [repo_a, repo_b, repo_c] \<and>
   own_property (JObj [(''query'', JStr ''CLI'')]) ''query'' = Some (JStr ''CLI'') \<and>
   handleSearchRepos ascii_host sample_config sample_upstream (JObj [(''query'', JStr ''CLI'')])
     = Inr (JSON_stringify
              (JArr [JObj [(''name'', JStr ''a''), (''description'', JStr ''A CLI''),
                           (''language'', JStr ''Go''), (''url'', JStr ''https://github.com/u/a'')],
                     JObj [(''name'', JStr ''b''), (''description'', JStr ''A CLI''),
                           (''language'', JStr ''Go''), (''url'', JStr ''https://github.com/u/a'')]])) \<and>
   handleSearchRepos ascii_host sample_config sample_upstream
       (JObj [(''query'', JStr ''xyz-no-match'')])
     = Inr (''No repositories matched '' @ [CHR 0x22] @ ''xyz-no-match'' @ [CHR 0x22] @ ''.'')"
proof -
  have f: "ghFetch (repo_lists sample_upstream)
             (''/users/'' @ GITHUB_USERNAME sample_config @ ''/repos?per_page=100'')
           = Inr [repo_a, repo_b, repo_c]"
    by (rule sample_lists)
  have q1: "own_property (JObj [(''query'', JStr ''CLI'')]) ''query'' = Some (JStr ''CLI'')"
    and q2: "own_property (JObj [(''query'', JStr ''xyz-no-match'')]) ''query''
               = Some (JStr ''xyz-no-match'')"
    by simp_all
  have r: "name repo_a = ''a''" "name repo_b = ''b''" "description repo_a = Some ''A CLI''"
    "description repo_b = Some ''A CLI''" "language repo_a = Some ''Go''"
    "language repo_b = Some ''Go''" "html_url repo_a = ''https://github.com/u/a''"
    "html_url repo_b = ''https://github.com/u/a''"
    by (simp_all add: repo_a_def repo_b_def)
  have a: "handleSearchRepos ascii_host sample_config sample_upstream
             (JObj [(''query'', JStr ''CLI'')])
           = Inr (JSON_stringify
              (JArr [JObj [(''name'', JStr ''a''), (''description'', JStr ''A CLI''),
                           (''language'', JStr ''Go''), (''url'', JStr ''https://github.com/u/a'')],
                     JObj [(''name'', JStr ''b''), (''description'', JStr ''A CLI''),
                           (''language'', JStr ''Go''), (''url'', JStr ''https://github.com/u/a'')]]))"
    unfolding search_repos_output [OF f q1, of ascii_host] sample_matches
    by (simp add: r json_of_text_def)
  have b: "handleSearchRepos ascii_host sample_config sample_upstream
             (JObj [(''query'', JStr ''xyz-no-match'')])
           = Inr (''No repositories matched '' @ [CHR 0x22] @ ''xyz-no-match'' @ [CHR 0x22] @ ''.'')"
    unfolding search_repos_output [OF f q2, of ascii_host] sample_matches
    by simp
  from f q1 a b show ?thesis by blast
qed



section \<open>Repository details\<close>

lemma fetch_readme_failed:
  "readme_fetch_failed (raw_texts up p) \<Longrightarrow> fetch_readme up p = ''(No README found)''"
  by (auto simp: readme_fetch_failed_def fetch_readme_def isl_def
      split: fetched.splits if_splits sum.splits)

lemma repo_details_isl:
  "isl (handleGetRepoDetails h cfg up args) \<longleftrightarrow>
     isl (template_text h (own_property args ''repo_name'')) \<or>
     (\<exists>repo_name. template_text h (own_property args ''repo_name'') = Inr repo_name \<and>
        isl (ghFetch (repo_objects up) (''/repos/'' @ GITHUB_USERNAME cfg @ ''/'' @ repo_name)))"
  by (auto simp: handleGetRepoDetails_def Let_def split: sum.splits)

text \<open>
  C6. When the repository itself is fetched and the README sub-fetch fails (no response,
  a response that is not ok, or a text that cannot be read), \<open>handleGetRepoDetails\<close>
  resolves, and its text ends with the README heading followed by exactly
  \<open>(No README found)\<close>. Whether the call resolves or rejects never depends on the
  README endpoint.
\<close>

theorem repo_details_readme_fallback:
  assumes "template_text h (own_property args ''repo_name'') = Inr repo_name"
    and "ghFetch (repo_objects up) (''/repos/'' @ GITHUB_USERNAME cfg @ ''/'' @ repo_name)
           = Inr repo"
    and "readme_fetch_failed
           (raw_texts up (''/repos/'' @ GITHUB_USERNAME cfg @ ''/'' @ repo_name @ ''/readme''))"
  shows "handleGetRepoDetails h cfg up args =
           Inr (''## Repository: '' @ name repo @ [CHR 0x0A, CHR 0x0A]
                @ JSON_stringify (repo_details_entry repo)
                @ [CHR 0x0A, CHR 0x0A] @ ''## README'' @ [CHR 0x0A, CHR 0x0A]
                @ ''(No README found)'') \<and>
         isl (handleGetRepoDetails h cfg (up\<lparr>raw_texts := readmes\<rparr>) args)
           = isl (handleGetRepoDetails h cfg up args)"
proof
  show "handleGetRepoDetails h cfg up args =
           Inr (''## Repository: '' @ name repo @ [CHR 0x0A, CHR 0x0A]
                @ JSON_stringify (repo_details_entry repo)
                @ [CHR 0x0A, CHR 0x0A] @ ''## README'' @ [CHR 0x0A, CHR 0x0A]
                @ ''(No README found)'')"
    using assms(1,2) fetch_readme_failed [OF assms(3)]
    by (simp add: handleGetRepoDetails_def Let_def)
  show "isl (handleGetRepoDetails h cfg (up\<lparr>raw_texts := readmes\<rparr>) args)
           = isl (handleGetRepoDetails h cfg up args)"
    by (simp add: repo_details_isl)
qed

theorem repo_details_readme_fallback_witness:
  "template_text ascii_host (own_property (JObj [(''repo_name'', JStr ''a'')]) ''repo_name'')
     = Inr ''a'' \<and>
   ghFetch (repo_objects sample_upstream) (''/repos/'' @ GITHUB_USERNAME sample_config @ ''/'' @ ''a'')
     = Inr repo_a \<and>
   readme_fetch_failed
     (raw_texts sample_upstream
        (''/repos/'' @ GITHUB_USERNAME sample_config @ ''/'' @ ''a'' @ ''/readme'')) \<and>
   handleGetRepoDetails ascii_host sample_config sample_upstream (JObj [(''repo_name'', JStr ''a'')])
     = Inr (''## Repository: '' @ name repo_a @ [CHR 0x0A, CHR 0x0A]
            @ JSON_stringify (repo_details_entry repo_a)
            @ [CHR 0x0A, CHR 0x0A] @ ''## README'' @ [CHR 0x0A, CHR 0x0A]
            @ ''(No README found)'')"
proof -
  have t: "template_text ascii_host (own_property (JObj [(''repo_name'', JStr ''a'')]) ''repo_name'')
             = Inr ''a''"
    by (simp add: template_text_def)
  have f: "ghFetch (repo_objects sample_upstream)
             (''/repos/'' @ GITHUB_USERNAME sample_config @ ''/'' @ ''a'') = Inr repo_a"
    by (simp add: ghFetch_def sample_upstream_def sample_config_def response_ok_def)
  have r: "readme_fetch_failed
             (raw_texts sample_upstream
                (''/repos/'' @ GITHUB_USERNAME sample_config @ ''/'' @ ''a'' @ ''/readme''))"
    by (simp add: readme_fetch_failed_def sample_upstream_def response_ok_def)
  from t f r repo_details_readme_fallback [OF t f r] show ?thesis by blast
qed

section \<open>The REST proxy\<close>

lemma registry_keys:
  "map fst (TOOL_REGISTRY h cfg up) =
     [''list_repos'', ''get_repo_details'', ''get_languages'', ''get_profile'',
      ''search_repos'', ''get_tech_stack_summary'']"
  by (simp add: TOOL_REGISTRY_def)

text \<open>
  C7. A tool name that is a member of \<open>Object.prototype\<close> is not one of the six
  registry names, yet the registry read finds the inherited member: for
  \<open>POST /call/constructor\<close> with the body \<open>{}\<close> the proxy answers 200 with the
  argument object as text, not 404.
\<close>

theorem post_call_constructor:
  "post_call h cfg up ''constructor'' (Some (JObj [])) =
     \<lparr>status = 200,
      body = JObj [(''content'', JArr [JObj [(''type'', JStr ''text''), (''text'', JObj [])]])]\<rparr>"
  by (simp add: post_call_def registry_read_def TOOL_REGISTRY_def object_prototype_members_def
      request_args_def respond_def call_inherited_def)


lemma post_call_not_found:
  assumes "toolName \<notin> fst ` set (TOOL_REGISTRY h cfg up)"
    and "toolName \<notin> set object_prototype_members"
  shows "post_call h cfg up toolName req_body =
           \<lparr>status = 404,
            body = JObj [(''error'', JStr (''Unknown tool: '' @ toolName)),
                         (''available'',
                            JArr (map JStr [''list_repos'', ''get_repo_details'',
                                            ''get_languages'', ''get_profile'',
                                            ''search_repos'', ''get_tech_stack_summary'']))]\<rparr>"
proof -
  have n: "map_of (TOOL_REGISTRY h cfg up) toolName = None"
    using assms(1) by (simp add: map_of_eq_None_iff)
  have i: "\<not> is_array_index k" if "k \<in> fst ` set (TOOL_REGISTRY h cfg up)" for k
    using that by (auto simp: TOOL_REGISTRY_def is_array_index_def is_digit_def)
  have "filter (\<lambda>kv. is_array_index (fst kv)) (TOOL_REGISTRY h cfg up) = []"
    using i by (auto simp: filter_empty_conv)
  moreover have "filter (\<lambda>kv. \<not> is_array_index (fst kv)) (TOOL_REGISTRY h cfg up)
                   = TOOL_REGISTRY h cfg up"
    using i by (auto simp: filter_id_conv)
  ultimately have e: "object_entries (TOOL_REGISTRY h cfg up) = TOOL_REGISTRY h cfg up"
    by (simp add: object_entries_def)
  have "map (\<lambda>kv. JStr (fst kv)) (TOOL_REGISTRY h cfg up)
          = map JStr (map fst (TOOL_REGISTRY h cfg up))"
    by simp
  then show ?thesis
    using n assms(2) by (simp add: post_call_def registry_read_def e registry_keys)
qed

lemma post_call_registered:
  assumes "map_of (TOOL_REGISTRY h cfg up) toolName = Some f"
    and "request_args h req_body = Inr args"
  shows "post_call h cfg up toolName req_body =
           (case f args of
              Inl err \<Rightarrow> \<lparr>status = 500, body = JObj [(''error'', JStr (error_text err))]\<rparr>
            | Inr text \<Rightarrow>
                \<lparr>status = 200,
                 body = JObj [(''content'',
                                 JArr [JObj [(''type'', JStr ''text''),
                                             (''text'', JStr text)]])]\<rparr>)"
  using assms by (simp add: post_call_def registry_read_def respond_def split: sum.splits)

lemma request_args_default:
  "b \<noteq> JNull \<Longrightarrow> own_property b ''args'' = None \<Longrightarrow>
   request_args h (Some b) = Inr (JObj [])"
  by (cases b) (simp_all add: request_args_def)

section \<open>Start-up\<close>


lemma truthy_text_iff: "truthy_text v \<longleftrightarrow> (\<exists>s. v = Some s \<and> s \<noteq> [])"
  by (cases v) (simp_all add: truthy_text_def)







section \<open>Determinism\<close>





section \<open>Counters\<close>

lemma map_of_put_property: "map_of (put_property props k v) = (map_of props)(k \<mapsto> v)"
  by (induction props) (auto simp: fun_eq_iff)

lemma keys_put_property:
  "map fst (put_property props k v) =
     (if k \<in> set (map fst props) then map fst props else map fst props @ [k])"
  by (induction props) force+

lemma mset_js_sort_place: "mset (js_sort_place cmp x ys) = add_mset x (mset ys)"
  by (induction ys) auto

lemma mset_js_sort: "mset (js_sort cmp xs) = mset xs"
  by (induction xs) (simp_all add: mset_js_sort_place)

lemma mset_object_entries: "mset (object_entries props) = mset props"
  by (simp add: object_entries_def)

lemma mset_sorted_counts: "mset (sorted_counts counts) = mset counts"
  by (simp add: sorted_counts_def mset_js_sort mset_object_entries)

lemma set_sorted_counts: "set (sorted_counts counts) = set counts"
  using mset_sorted_counts [of counts] by (metis set_mset_mset)

lemma keys_sorted_counts_distinct:
  "distinct (map fst (sorted_counts counts)) = distinct (map fst counts)"
proof -
  have "mset (map fst (sorted_counts counts)) = mset (map fst counts)"
    by (simp add: mset_sorted_counts)
  then show ?thesis by (rule mset_eq_imp_distinct_iff)
qed

lemma map_of_sorted_counts:
  assumes "distinct (map fst counts)"
  shows "map_of (sorted_counts counts) = map_of counts"
proof -
  have "distinct (map fst (sorted_counts counts))"
    using assms by (simp add: keys_sorted_counts_distinct)
  then show ?thesis
    using assms by (simp add: map_of_inject_set set_sorted_counts)
qed


text \<open>What one increment does to the value of a key and to the list of keys.\<close>

lemma map_of_counter_increment:
  "map_of (counter_increment h counts k) =
     (case map_of counts k of
        Some (Count n) \<Rightarrow> (map_of counts)(k \<mapsto> Count (n + 1))
      | Some (Text s) \<Rightarrow> (map_of counts)(k \<mapsto> Text (s @ ''1''))
      | None \<Rightarrow>
          if k \<in> set object_prototype_members
          then (if k = ''__proto__'' then map_of counts
                else (map_of counts)(k \<mapsto> Text (member_text h k @ ''1'')))
          else (map_of counts)(k \<mapsto> Count 1))"
  by (simp add: counter_increment_def map_of_put_property split: option.splits tally.splits)

lemma keys_counter_increment:
  "map fst (counter_increment h counts k) =
     (if k \<in> set (map fst counts) \<or> k = ''__proto__'' then map fst counts
      else map fst counts @ [k])"
proof -
  have p: "''__proto__'' \<in> set object_prototype_members"
    by (simp add: object_prototype_members_def)
  have n: "map_of counts k = None \<longleftrightarrow> k \<notin> set (map fst counts)"
    by (simp add: map_of_eq_None_iff)
  show ?thesis
  proof (cases "map_of counts k")
    case None
    then show ?thesis using p n
      by (simp add: counter_increment_def keys_put_property)
  next
    case (Some t)
    then have "k \<in> set (map fst counts)" using n by simp
    then show ?thesis using Some
      by (cases t) (simp_all add: counter_increment_def keys_put_property)
  qed
qed

lemma distinct_counter_increment:
  "distinct (map fst counts) \<Longrightarrow> distinct (map fst (counter_increment h counts k))"
  by (simp add: keys_counter_increment)

lemma distinct_counter_fold:
  "distinct (map fst counts) \<Longrightarrow> distinct (map fst (foldl (counter_increment h) counts ks))"
  by (induction ks arbitrary: counts) (simp_all add: distinct_counter_increment)

text \<open>The loop over the repositories runs the two counters side by side.\<close>

lemma tally_fold:
  "foldl (tally_repo h) (lc, tc) rs =
     (foldl (counter_increment h) lc
        (map (\<lambda>r. the (language r)) (filter (\<lambda>r. truthy_text (language r)) rs)),
      foldl (counter_increment h) tc (concat (map topics rs)))"
  by (induction rs arbitrary: lc tc) (simp_all add: tally_repo_def)

lemma tally_counts_eq:
  "tally_counts h (filter (\<lambda>r. \<not> fork r) repos) =
     (foldl (counter_increment h) [] (original_languages repos),
      foldl (counter_increment h) [] (original_topics repos))"
  by (simp add: tally_counts_def tally_fold original_languages_def original_topics_def)

lemma tech_stack_languages_eq:
  "tech_stack_languages h repos =
     sorted_counts (foldl (counter_increment h) [] (original_languages repos))"
  by (simp add: tech_stack_languages_def tally_counts_eq)

lemma tech_stack_topics_eq:
  "tech_stack_topics h repos =
     sorted_counts (foldl (counter_increment h) [] (original_topics repos))"
  by (simp add: tech_stack_topics_def tally_counts_eq)

text \<open>Keys that are no members of \<open>Object.prototype\<close> are counted exactly.\<close>

lemma counter_fold_values:
  assumes "\<forall>k \<in> set ks. k \<notin> set object_prototype_members"
  shows "map_of (foldl (counter_increment h) [] ks) =
           (\<lambda>k. if count_list ks k = 0 then None else Some (Count (count_list ks k)))"
  using assms
proof (induction ks rule: rev_induct)
  case Nil
  show ?case by simp
next
  case (snoc x ks)
  then have ih: "map_of (foldl (counter_increment h) [] ks) =
      (\<lambda>k. if count_list ks k = 0 then None else Some (Count (count_list ks k)))"
    and x: "x \<notin> set object_prototype_members"
    by auto
  show ?case
    using x by (intro ext) (auto simp: map_of_counter_increment ih)
qed

lemma counter_fold_value:
  assumes "\<forall>k \<in> set ks. k \<notin> set object_prototype_members"
  shows "map_of (foldl (counter_increment h) [] ks) k =
           (if count_list ks k = 0 then None else Some (Count (count_list ks k)))"
  by (simp add: counter_fold_values [OF assms])

lemma counter_fold_keys:
  assumes "''__proto__'' \<notin> set ks"
  shows "map fst (foldl (counter_increment h) [] ks) = first_seen ks"
  using assms
proof (induction ks rule: rev_induct)
  case Nil
  show ?case by (simp add: first_seen_def)
next
  case (snoc x ks)
  then have ih: "map fst (foldl (counter_increment h) [] ks) = first_seen ks"
    and x: "x \<noteq> ''__proto__''"
    by auto
  have s: "set (first_seen ks) = set ks" by (simp add: first_seen_def)
  show ?case
    using x by (simp add: keys_counter_increment ih s) (simp add: first_seen_def)
qed



lemma count_list_pos: "k \<in> set ks \<Longrightarrow> 0 < count_list ks k"
  by (induction ks) auto

lemma js_sort_place_cong:
  "\<forall>y \<in> set ys. cmp x y = cmp' x y \<Longrightarrow> js_sort_place cmp x ys = js_sort_place cmp' x ys"
  by (induction ys) auto

lemma js_sort_cong:
  "\<forall>x \<in> set xs. \<forall>y \<in> set xs. cmp x y = cmp' x y \<Longrightarrow> js_sort cmp xs = js_sort cmp' xs"
proof (induction xs)
  case Nil
  show ?case by simp
next
  case (Cons x xs)
  then have "js_sort cmp xs = js_sort cmp' xs" by simp
  moreover have "\<forall>y \<in> set (js_sort cmp' xs). cmp x y = cmp' x y"
    using Cons.prems by (simp add: set_js_sort)
  ultimately show ?case by (simp add: js_sort_place_cong)
qed

lemma set_object_entries: "set (object_entries props) = set props"
  using mset_object_entries [of props] by (metis set_mset_mset)

lemma sorted_counts_descending:
  assumes "\<forall>kv \<in> set counts. \<exists>n. snd kv = Count n"
  shows "sorted_wrt (\<lambda>x y. tally_number (snd y) \<le> tally_number (snd x)) (sorted_counts counts)"
proof -
  let ?cmp = "\<lambda>x y :: string \<times> tally. int (tally_number (snd y)) - int (tally_number (snd x))"
  have c: "consistent_comparator ?cmp"
    unfolding consistent_comparator_def by auto
  have "\<forall>x \<in> set (object_entries counts). \<forall>y \<in> set (object_entries counts).
          tally_compare x y = ?cmp x y"
  proof (intro ballI)
    fix x y
    assume "x \<in> set (object_entries counts)" and "y \<in> set (object_entries counts)"
    then obtain a b where "snd x = Count a" and "snd y = Count b"
      using assms by (metis set_object_entries)
    then show "tally_compare x y = ?cmp x y"
      by (simp add: tally_compare_def tally_number_def)
  qed
  then have "sorted_counts counts = js_sort ?cmp (object_entries counts)"
    unfolding sorted_counts_def by (rule js_sort_cong)
  moreover have "sorted_wrt (\<lambda>x y. ?cmp x y \<le> 0) (js_sort ?cmp (object_entries counts))"
    using c by (rule sorted_js_sort)
  ultimately show ?thesis by simp
qed

lemma sorted_counts_ties:
  "filter (\<lambda>kv. snd kv = Count n) (sorted_counts counts)
     = filter (\<lambda>kv. snd kv = Count n) (object_entries counts)"
  unfolding sorted_counts_def
  by (rule filter_js_sort) (auto simp: tally_compare_def)

lemma object_entries_plain:
  assumes "\<forall>kv \<in> set props. \<not> is_array_index (fst kv)"
  shows "object_entries props = props"
proof -
  have "filter (\<lambda>kv. is_array_index (fst kv)) props = []"
    using assms by (auto simp: filter_empty_conv)
  moreover have "filter (\<lambda>kv. \<not> is_array_index (fst kv)) props = props"
    using assms by (auto simp: filter_id_conv)
  ultimately show ?thesis by (simp add: object_entries_def)
qed

lemma assoc_by_keys:
  assumes "distinct (map fst props)"
  shows "props = map (\<lambda>k. (k, the (map_of props k))) (map fst props)"
proof -
  have "map (\<lambda>kv. (fst kv, the (map_of props (fst kv)))) props = map (\<lambda>kv. kv) props"
  proof (rule map_cong [OF refl])
    fix kv assume "kv \<in> set props"
    then have "map_of props (fst kv) = Some (snd kv)"
      using assms by (simp add: map_of_eq_Some_iff)
    then show "(fst kv, the (map_of props (fst kv))) = kv" by simp
  qed
  then show ?thesis by (simp add: comp_def)
qed

text \<open>The counter of a run of keys that are no members of \<open>Object.prototype\<close>.\<close>

lemma counter_fold_clean:
  assumes "\<forall>k \<in> set ks. k \<notin> set object_prototype_members"
  shows "foldl (counter_increment h) [] ks
           = map (\<lambda>k. (k, Count (count_list ks k))) (first_seen ks)"
proof -
  let ?c = "foldl (counter_increment h) [] ks"
  have p: "''__proto__'' \<notin> set ks"
    using assms by (auto simp: object_prototype_members_def)
  have keys: "map fst ?c = first_seen ks"
    using p by (rule counter_fold_keys)
  have d: "distinct (map fst ?c)"
    by (rule distinct_counter_fold) simp
  have "?c = map (\<lambda>k. (k, the (map_of ?c k))) (first_seen ks)"
    using assoc_by_keys [OF d] keys by simp
  also have "\<dots> = map (\<lambda>k. (k, Count (count_list ks k))) (first_seen ks)"
  proof (rule map_cong [OF refl])
    fix k assume "k \<in> set (first_seen ks)"
    then have "k \<in> set ks" by (simp add: first_seen_def)
    then have "count_list ks k \<noteq> 0" by (simp add: count_list_0_iff)
    then show "(k, the (map_of ?c k)) = (k, Count (count_list ks k))"
      by (simp add: counter_fold_value [OF assms])
  qed
  finally show ?thesis .
qed

lemma sorted_counts_clean:
  assumes "\<forall>k \<in> set ks. k \<notin> set object_prototype_members"
  shows "map_of (sorted_counts (foldl (counter_increment h) [] ks)) k =
           (if count_list ks k = 0 then None else Some (Count (count_list ks k)))"
    and "\<forall>kv \<in> set (sorted_counts (foldl (counter_increment h) [] ks)).
           \<exists>n. 0 < n \<and> snd kv = Count n"
    and "sorted_wrt (\<lambda>x y. tally_number (snd y) \<le> tally_number (snd x))
           (sorted_counts (foldl (counter_increment h) [] ks))"
    and "filter (\<lambda>kv. snd kv = Count n) (sorted_counts (foldl (counter_increment h) [] ks))
           = filter (\<lambda>kv. snd kv = Count n)
               (object_entries (map (\<lambda>k. (k, Count (count_list ks k))) (first_seen ks)))"
proof -
  let ?c = "foldl (counter_increment h) [] ks"
  have d: "distinct (map fst ?c)"
    by (rule distinct_counter_fold) simp
  show "map_of (sorted_counts ?c) k =
           (if count_list ks k = 0 then None else Some (Count (count_list ks k)))"
    by (simp add: map_of_sorted_counts [OF d] counter_fold_value [OF assms])
  have e: "\<forall>kv \<in> set ?c. \<exists>n. 0 < n \<and> snd kv = Count n"
    by (auto simp: counter_fold_clean [OF assms] first_seen_def count_list_pos)
  then show "\<forall>kv \<in> set (sorted_counts ?c). \<exists>n. 0 < n \<and> snd kv = Count n"
    by (simp add: set_sorted_counts)
  from e have "\<forall>kv \<in> set ?c. \<exists>n. snd kv = Count n" by blast
  then show "sorted_wrt (\<lambda>x y. tally_number (snd y) \<le> tally_number (snd x)) (sorted_counts ?c)"
    by (rule sorted_counts_descending)
  show "filter (\<lambda>kv. snd kv = Count n) (sorted_counts ?c)
           = filter (\<lambda>kv. snd kv = Count n)
               (object_entries (map (\<lambda>k. (k, Count (count_list ks k))) (first_seen ks)))"
    by (simp add: sorted_counts_ties counter_fold_clean [OF assms])
qed

lemma count_original_languages:
  "count_list (original_languages repos) l =
     (if l = [] then 0 else length (filter (\<lambda>r. \<not> fork r \<and> language r = Some l) repos))"
  by (induction repos) (auto simp: original_languages_def truthy_text_iff)

lemma count_original_topics:
  "count_list (original_topics repos) t =
     sum_list (map (\<lambda>r. count_list (topics r) t) (filter (\<lambda>r. \<not> fork r) repos))"
proof -
  have "count_list (concat xss) t = sum_list (map (\<lambda>xs. count_list xs t) xss)" for xss :: "string list list"
    by (induction xss) simp_all
  then show ?thesis by (simp add: original_topics_def comp_def)
qed



text \<open>
  C3, as the code has it. For an upstream list in which no language and no topic of an
  original repository is the name of a member of \<open>Object.prototype\<close>: a language is
  counted once for each original repository that has it (forks and repositories without
  a language count nothing), a topic once for each time an original repository lists
  it, no entry has the count zero, both lists fall by count, and entries with equal
  counts stand in the enumeration order of the counter object: keys that are array
  indices first, by rising number, then the other keys as first seen.
\<close>

theorem tech_stack_counts:
  assumes "\<forall>k \<in> set (original_languages repos) \<union> set (original_topics repos).
             k \<notin> set object_prototype_members"
  shows "(\<forall>l. count_list (original_languages repos) l =
               (if l = [] then 0
                else length (filter (\<lambda>r. \<not> fork r \<and> language r = Some l) repos))) \<and>
         (\<forall>t. count_list (original_topics repos) t =
               sum_list (map (\<lambda>r. count_list (topics r) t) (filter (\<lambda>r. \<not> fork r) repos))) \<and>
         (\<forall>l. map_of (tech_stack_languages h repos) l =
               (if count_list (original_languages repos) l = 0 then None
                else Some (Count (count_list (original_languages repos) l)))) \<and>
         (\<forall>t. map_of (tech_stack_topics h repos) t =
               (if count_list (original_topics repos) t = 0 then None
                else Some (Count (count_list (original_topics repos) t)))) \<and>
         (\<forall>kv \<in> set (tech_stack_languages h repos) \<union> set (tech_stack_topics h repos).
               \<exists>n. 0 < n \<and> snd kv = Count n) \<and>
         sorted_wrt (\<lambda>x y. tally_number (snd y) \<le> tally_number (snd x))
           (tech_stack_languages h repos) \<and>
         sorted_wrt (\<lambda>x y. tally_number (snd y) \<le> tally_number (snd x))
           (tech_stack_topics h repos) \<and>
         (\<forall>n. filter (\<lambda>kv. snd kv = Count n) (tech_stack_languages h repos) =
               filter (\<lambda>kv. snd kv = Count n)
                 (object_entries
                    (map (\<lambda>k. (k, Count (count_list (original_languages repos) k)))
                         (first_seen (original_languages repos))))) \<and>
         (\<forall>n. filter (\<lambda>kv. snd kv = Count n) (tech_stack_topics h repos) =
               filter (\<lambda>kv. snd kv = Count n)
                 (object_entries
                    (map (\<lambda>k. (k, Count (count_list (original_topics repos) k)))
                         (first_seen (original_topics repos)))))"
proof -
  have l: "\<forall>k \<in> set (original_languages repos). k \<notin> set object_prototype_members"
    and t: "\<forall>k \<in> set (original_topics repos). k \<notin> set object_prototype_members"
    using assms by auto
  note ls = sorted_counts_clean [OF l, where h = h, folded tech_stack_languages_eq]
  note ts = sorted_counts_clean [OF t, where h = h, folded tech_stack_topics_eq]
  show ?thesis
    using ls(2) ts(2)
    by (simp add: count_original_languages count_original_topics ls(1,3,4) ts(1,3,4) ball_Un)
qed

lemma sample_originals:
  "original_languages [repo_a, repo_b, repo_c] = [''Go'', ''Rust'']"
  "original_topics [repo_a, repo_b, repo_c] = [''cli'']"
  by (simp_all add: original_languages_def original_topics_def repo_a_def repo_b_def repo_c_def
      truthy_text_def)

lemma sample_entries:
  "object_entries [(''Go'', Count (Suc 0)), (''Rust'', Count (Suc 0))]
     = [(''Go'', Count (Suc 0)), (''Rust'', Count (Suc 0))]"
  by (rule object_entries_plain) (simp add: is_array_index_def is_digit_def)

theorem tech_stack_counts_witness:
  "list_all (\<lambda>k. k \<notin> set object_prototype_members)
     (original_languages [repo_a, repo_b, repo_c] @ original_topics [repo_a, repo_b, repo_c]) \<and>
   map_of (tech_stack_languages ascii_host [repo_a, repo_b, repo_c]) ''Go'' = Some (Count 1) \<and>
   map_of (tech_stack_languages ascii_host [repo_a, repo_b, repo_c]) ''Rust'' = Some (Count 1) \<and>
   map_of (tech_stack_topics ascii_host [repo_a, repo_b, repo_c]) ''cli'' = Some (Count 1) \<and>
   map_of (tech_stack_topics ascii_host [repo_a, repo_b, repo_c]) ''web'' = None \<and>
   sorted_wrt (\<lambda>x y. tally_number (snd y) \<le> tally_number (snd x))
     (tech_stack_languages ascii_host [repo_a, repo_b, repo_c]) \<and>
   filter (\<lambda>kv. snd kv = Count 1) (tech_stack_languages ascii_host [repo_a, repo_b, repo_c])
     = [(''Go'', Count 1), (''Rust'', Count 1)]"
proof -
  have c: "\<forall>k \<in> set (original_languages [repo_a, repo_b, repo_c])
                 \<union> set (original_topics [repo_a, repo_b, repo_c]).
             k \<notin> set object_prototype_members"
    by (simp add: sample_originals object_prototype_members_def)
  have "filter (\<lambda>kv. snd kv = Count 1) (tech_stack_languages ascii_host [repo_a, repo_b, repo_c])
          = [(''Go'', Count 1), (''Rust'', Count 1)]"
    using tech_stack_counts [OF c, of ascii_host]
    by (simp add: sample_originals first_seen_def sample_entries)
  then show ?thesis
    using c tech_stack_counts [OF c, of ascii_host]
    by (simp add: sample_originals list_all_iff)
qed

text \<open>
  A topic that is the name of a member of \<open>Object.prototype\<close> is not counted: its
  entry holds a text.
\<close>

lemma tech_stack_inherited_name:
  "tech_stack_topics h [repo_a\<lparr>topics := [''constructor'']\<rparr>]
     = [(''constructor'', Text (member_text h ''constructor'' @ ''1''))]"
  by (simp add: tech_stack_topics_def tally_counts_def tally_repo_def
      repo_a_def truthy_text_def counter_increment_def object_prototype_members_def
      sorted_counts_def object_entries_def is_array_index_def is_digit_def)

theorem tech_stack_counts_counterexample:
  "original_topics [repo_a\<lparr>topics := [''cli'', ''2048'']\<rparr>] = [''cli'', ''2048''] \<and>
   tech_stack_topics ascii_host [repo_a\<lparr>topics := [''cli'', ''2048'']\<rparr>]
     = [(''2048'', Count 1), (''cli'', Count 1)]"
  by (simp add: original_topics_def tech_stack_topics_def tally_counts_def tally_repo_def
      repo_a_def truthy_text_def counter_increment_def object_prototype_members_def
      sorted_counts_def object_entries_def is_array_index_def is_digit_def digits_value_def
      tally_compare_def)



section \<open>Bounds on the counts\<close>












section \<open>Percentages\<close>

lemma bit_length_bounds:
  "0 < n \<Longrightarrow> 2 ^ (bit_length n - 1) \<le> n \<and> n < 2 ^ bit_length n"
proof (induction n rule: bit_length.induct)
  case (1 n)
  show ?case
  proof (cases "n div 2 = 0")
    case True
    with 1 have "n = 1" by linarith
    moreover have "bit_length (Suc 0) = Suc 0"
      by (simp add: bit_length.simps [of "Suc 0"] bit_length.simps [of 0])
    ultimately show ?thesis by simp
  next
    case False
    then have ih: "2 ^ (bit_length (n div 2) - 1) \<le> n div 2 \<and> n div 2 < 2 ^ bit_length (n div 2)"
      using 1 by simp
    have b: "bit_length n = Suc (bit_length (n div 2))"
      using 1(2) by (subst bit_length.simps) simp
    have p: "0 < bit_length (n div 2)"
      using False by (subst bit_length.simps) simp
    then have e: "(2::nat) ^ bit_length (n div 2) = 2 * 2 ^ (bit_length (n div 2) - 1)"
      by (cases "bit_length (n div 2)") simp_all
    have d: "2 * (n div 2) \<le> n" "n < 2 * (n div 2) + 2" by linarith+
    have "(2::nat) ^ (bit_length n - 1) = 2 ^ bit_length (n div 2)"
      using b by simp
    also have "\<dots> = 2 * 2 ^ (bit_length (n div 2) - 1)" by (rule e)
    also have "\<dots> \<le> 2 * (n div 2)" using ih by simp
    also have "\<dots> \<le> n" by (rule d)
    finally have lo: "(2::nat) ^ (bit_length n - 1) \<le> n" .
    have "n div 2 + 1 \<le> 2 ^ bit_length (n div 2)" using ih by simp
    then have "2 * (n div 2) + 2 \<le> 2 * 2 ^ bit_length (n div 2)" by simp
    with d(2) have "n < 2 * 2 ^ bit_length (n div 2)" by linarith
    then have "n < 2 ^ bit_length n" using b by simp
    with lo show ?thesis ..
  qed
qed

lemma round_half_even_near:
  assumes "0 < d"
  shows "\<bar>rat_of_nat (round_half_even n d) - of_nat n / of_nat d\<bar> \<le> 1 / 2"
proof -
  define m r where "m = n div d" and "r = n mod d"
  have n: "n = m * d + r" and r: "r < d"
    using assms by (simp_all add: m_def r_def)
  have q: "rat_of_nat n / of_nat d = of_nat m + of_nat r / of_nat d"
    using assms by (simp add: n field_simps)
  have h: "rat_of_nat r / of_nat d \<le> 1 / 2 \<longleftrightarrow> 2 * r \<le> d"
  proof -
    have "rat_of_nat r / of_nat d \<le> 1 / 2 \<longleftrightarrow> 2 * rat_of_nat r \<le> of_nat d"
      using assms by (simp add: field_simps)
    also have "\<dots> \<longleftrightarrow> rat_of_nat (2 * r) \<le> of_nat d" by simp
    also have "\<dots> \<longleftrightarrow> 2 * r \<le> d" by (rule of_nat_le_iff)
    finally show ?thesis .
  qed
  have l: "rat_of_nat r / of_nat d < 1" "0 \<le> rat_of_nat r / of_nat d"
    using assms r by simp_all
  show ?thesis
  proof (cases "d < 2 * r \<or> (2 * r = d \<and> odd m)")
    case True
    then have "round_half_even n d = m + 1"
      by (simp add: round_half_even_def Let_def m_def r_def)
    moreover from True have "\<not> 2 * r < d" by auto
    then have "1 / 2 \<le> rat_of_nat r / of_nat d"
    proof -
      have "d \<le> 2 * r" using True by auto
      then have "rat_of_nat d \<le> of_nat (2 * r)" by (simp only: of_nat_le_iff)
      then show ?thesis using assms by (simp add: field_simps)
    qed
    ultimately show ?thesis using l by (simp add: q)
  next
    case False
    then have "round_half_even n d = m"
      by (simp add: round_half_even_def Let_def m_def r_def)
    moreover from False have "2 * r \<le> d" by auto
    ultimately show ?thesis using l h by (simp add: q)
  qed
qed


lemma scaled_ratio:
  assumes "0 < d"
  shows "rat_of_nat (n * 2 ^ nat s) / of_nat (d * 2 ^ nat (- s))
           = of_nat n / of_nat d * 2 powi s"
proof (cases "0 \<le> s")
  case True
  then show ?thesis by (simp add: power_int_def)
next
  case False
  then show ?thesis by (simp add: power_int_def power_inverse field_simps)
qed

lemma scaled_ratio_lower:
  assumes "0 < n" and "0 < d"
  shows "2 ^ 52 \<le> rat_of_nat n / of_nat d * 2 powi (53 + int (bit_length d) - int (bit_length n))"
proof -
  have n: "2 ^ (bit_length n - 1) \<le> n" and d: "d < 2 ^ bit_length d"
    using bit_length_bounds assms by blast+
  have "0 < bit_length n"
    using assms(1) by (subst bit_length.simps) simp
  then have "(2::nat) ^ bit_length n = 2 * 2 ^ (bit_length n - 1)"
    by (cases "bit_length n") simp_all
  then have "(2::nat) ^ bit_length n \<le> 2 * n" using n by simp
  then have "rat_of_nat (2 ^ bit_length n) \<le> of_nat (2 * n)" by (simp only: of_nat_le_iff)
  then have n': "(2::rat) ^ bit_length n \<le> 2 * of_nat n" by simp
  have "rat_of_nat d \<le> of_nat (2 ^ bit_length d)"
    using d by (simp only: of_nat_le_iff less_imp_le)
  then have d': "rat_of_nat d \<le> 2 ^ bit_length d" by simp
  have p: "(2::rat) powi (53 + int (bit_length d) - int (bit_length n))
             = 2 ^ 53 * 2 ^ bit_length d / 2 ^ bit_length n"
    by (simp add: power_int_diff power_int_add)
  have "(2::rat) ^ 52 * of_nat d * 2 ^ bit_length n \<le> 2 ^ 52 * 2 ^ bit_length d * (2 * of_nat n)"
    using n' d' by (intro mult_mono) simp_all
  then have "(2::rat) ^ 52 * of_nat d * 2 ^ bit_length n
               \<le> of_nat n * (2 ^ 53 * 2 ^ bit_length d)"
    by simp
  then show ?thesis
    using assms(2) unfolding p by (simp add: field_simps)
qed

lemma double_of_ratio_near:
  assumes "0 < d"
  shows "\<bar>double_value (double_of_ratio n d) - of_nat n / of_nat d\<bar>
           \<le> of_nat n / of_nat d / 2 ^ 53"
proof (cases "n = 0")
  case True
  then show ?thesis by (simp add: double_of_ratio_def double_value_def)
next
  case False
  define s where "s = 53 + int (bit_length d) - int (bit_length n)"
  define N D where "N = n * 2 ^ nat s" and "D = d * 2 ^ nat (- s)"
  define u :: rat where "u = 2 powi (- s)"
  define q :: rat where "q = of_nat n / of_nat d"
  have D: "0 < D" using assms by (simp add: D_def)
  have u: "0 < u" by (simp add: u_def)
  have us: "u * 2 powi s = 1" by (simp add: u_def power_int_minus)
  have f: "rat_of_nat N / of_nat D = q * 2 powi s"
    unfolding N_def D_def q_def using assms by (rule scaled_ratio)
  then have qu: "q = rat_of_nat N / of_nat D * u"
    using us by (simp add: mult.assoc mult.commute)
  have lo: "2 ^ 52 \<le> rat_of_nat N / of_nat D"
    unfolding f q_def s_def using False assms by (intro scaled_ratio_lower) simp_all
  show ?thesis
  proof (cases "N < D * 2 ^ 53")
    case True
    define m where "m = round_half_even N D"
    have r: "double_of_ratio n d = (m, - s)"
      using False True by (simp add: double_of_ratio_def Let_def s_def N_def D_def m_def)
    have "\<bar>rat_of_nat m - of_nat N / of_nat D\<bar> \<le> 1 / 2"
      unfolding m_def using D by (rule round_half_even_near)
    then have "\<bar>rat_of_nat m - of_nat N / of_nat D\<bar> * u \<le> 1 / 2 * u"
      using u by (intro mult_right_mono) simp_all
    moreover have "\<bar>rat_of_nat m - of_nat N / of_nat D\<bar> * u = \<bar>of_nat m * u - q\<bar>"
    proof -
      have "\<bar>rat_of_nat m - of_nat N / of_nat D\<bar> * u
              = \<bar>(rat_of_nat m - of_nat N / of_nat D) * u\<bar>"
        using u by (simp add: abs_mult)
      also have "(rat_of_nat m - of_nat N / of_nat D) * u = of_nat m * u - q"
        by (simp add: qu algebra_simps)
      finally show ?thesis .
    qed
    moreover have "1 / 2 * u \<le> q / 2 ^ 53"
    proof -
      have "2 ^ 52 * u \<le> q" unfolding qu using lo u by (intro mult_right_mono) simp_all
      then show ?thesis by simp
    qed
    ultimately have "\<bar>of_nat m * u - q\<bar> \<le> q / 2 ^ 53" by linarith
    then show ?thesis by (simp add: r double_value_def u_def q_def)
  next
    case False
    define m where "m = round_half_even N (2 * D)"
    have r: "double_of_ratio n d = (m, 1 - s)"
      using \<open>n \<noteq> 0\<close> False by (simp add: double_of_ratio_def Let_def s_def N_def D_def m_def)
    have "\<bar>rat_of_nat m - of_nat N / of_nat (2 * D)\<bar> \<le> 1 / 2"
      unfolding m_def using D by (intro round_half_even_near) simp
    then have "\<bar>rat_of_nat m - of_nat N / of_nat (2 * D)\<bar> * (2 * u) \<le> 1 / 2 * (2 * u)"
      using u by (intro mult_right_mono) simp_all
    moreover have "\<bar>rat_of_nat m - of_nat N / of_nat (2 * D)\<bar> * (2 * u)
                     = \<bar>of_nat m * (2 * u) - q\<bar>"
    proof -
      have "\<bar>rat_of_nat m - of_nat N / of_nat (2 * D)\<bar> * (2 * u)
              = \<bar>(rat_of_nat m - of_nat N / of_nat (2 * D)) * (2 * u)\<bar>"
        using u by (simp add: abs_mult)
      also have "(rat_of_nat m - of_nat N / of_nat (2 * D)) * (2 * u) = of_nat m * (2 * u) - q"
        using D by (simp add: qu field_simps)
      finally show ?thesis .
    qed
    moreover have "1 / 2 * (2 * u) \<le> q / 2 ^ 53"
    proof -
      have "rat_of_nat (D * 2 ^ 53) \<le> of_nat N"
        using False by (simp only: of_nat_le_iff not_less)
      then have "2 ^ 53 \<le> rat_of_nat N / of_nat D"
        using D by (simp add: field_simps)
      then have "2 ^ 53 * u \<le> q" unfolding qu using u by (intro mult_right_mono) simp_all
      then show ?thesis by simp
    qed
    ultimately have "\<bar>of_nat m * (2 * u) - q\<bar> \<le> q / 2 ^ 53" by linarith
    moreover have "(2::rat) powi (1 - s) = 2 * u"
      by (simp add: u_def power_int_diff power_int_minus field_simps)
    ultimately show ?thesis by (simp add: r double_value_def q_def)
  qed
qed



lemma times_100_near:
  "\<bar>double_value (times_100 x) - 100 * double_value x\<bar> \<le> 100 * double_value x / 2 ^ 53"
proof -
  define y where "y = double_of_ratio (100 * fst x) 1"
  define u :: rat where "u = 2 powi snd x"
  define c :: rat where "c = 2 ^ 53"
  define m :: rat where "m = of_nat (fst x)"
  have u: "0 < u" by (simp add: u_def)
  have v: "double_value (times_100 x) = double_value y * u"
    by (simp add: times_100_def Let_def y_def double_value_def u_def power_int_add)
  have w: "double_value x = m * u"
    by (simp add: double_value_def u_def m_def)
  have "\<bar>double_value y - of_nat (100 * fst x) / of_nat 1\<bar>
          \<le> of_nat (100 * fst x) / of_nat 1 / 2 ^ 53"
    unfolding y_def by (rule double_of_ratio_near) simp
  then have "\<bar>double_value y - 100 * m\<bar> \<le> 100 * m / c"
    by (simp add: c_def m_def)
  then have "\<bar>double_value y - 100 * m\<bar> * u \<le> 100 * m / c * u"
    using u by (intro mult_right_mono) simp_all
  moreover have "\<bar>double_value y - 100 * m\<bar> * u = \<bar>double_value y * u - 100 * (m * u)\<bar>"
  proof -
    have "\<bar>double_value y - 100 * m\<bar> * u = \<bar>(double_value y - 100 * m) * u\<bar>"
      using u by (simp add: abs_mult)
    also have "(double_value y - 100 * m) * u = double_value y * u - 100 * (m * u)"
      by (simp add: algebra_simps)
    finally show ?thesis .
  qed
  moreover have "100 * m / c * u = 100 * (m * u) / c" by simp
  ultimately have "\<bar>double_value y * u - 100 * (m * u)\<bar> \<le> 100 * (m * u) / c" by simp
  then show ?thesis unfolding v w c_def .
qed


lemma div_bounds:
  fixes a b :: nat
  assumes "0 < b"
  shows "a div b * b \<le> a" and "a < (a div b + 1) * b"
proof -
  show "a div b * b \<le> a" by simp
  have "a div b * b + a mod b = a" by simp
  moreover have "a mod b < b" using assms by simp
  ultimately have "a < a div b * b + b" by linarith
  then show "a < (a div b + 1) * b" by (simp add: algebra_simps)
qed

lemma tenths_near: "\<bar>rat_of_nat (tenths x) - 10 * double_value x\<bar> \<le> 1 / 2"
proof (cases "0 \<le> snd x")
  case True
  then show ?thesis by (simp add: tenths_def double_value_def power_int_def)
next
  case False
  define D :: nat where "D = 2 ^ nat (- snd x)"
  define a where "a = 20 * fst x + D"
  define t where "t = a div (2 * D)"
  define m :: rat where "m = of_nat (fst x)"
  define r :: rat where "r = of_nat D"
  define k :: rat where "k = of_nat t"
  have D: "0 < D" by (simp add: D_def)
  have p: "0 < r" using D by (simp add: r_def)
  have t: "tenths x = t"
    using False by (simp add: tenths_def t_def a_def D_def)
  have v: "double_value x = m / r"
    using False
    by (simp add: double_value_def power_int_def D_def power_inverse field_simps m_def r_def)
  have "t * (2 * D) \<le> a" unfolding t_def using D by (intro div_bounds) simp
  then have "rat_of_nat (t * (2 * D)) \<le> of_nat a" by (simp only: of_nat_le_iff)
  then have lo: "k * (2 * r) \<le> 20 * m + r"
    by (simp add: a_def k_def r_def m_def)
  have "a < (t + 1) * (2 * D)" unfolding t_def using D by (intro div_bounds) simp
  then have "rat_of_nat a < of_nat ((t + 1) * (2 * D))" by (simp only: of_nat_less_iff)
  then have hi: "20 * m + r < (k + 1) * (2 * r)"
    by (simp add: a_def k_def r_def m_def algebra_simps)
  have "k - 10 * (m / r) \<le> 1 / 2"
    using lo p by (simp add: field_simps)
  moreover have "- (1 / 2) \<le> k - 10 * (m / r)"
    using hi p by (simp add: field_simps)
  ultimately have "\<bar>k - 10 * (m / r)\<bar> \<le> 1 / 2" by linarith
  then show ?thesis unfolding t v k_def .
qed



lemma percent_tenths_near:
  assumes "0 \<le> bytes" and "0 < total_bytes"
  shows "\<bar>rat_of_nat (tenths (percent_double bytes total_bytes))
            - 1000 * (of_int bytes / of_int total_bytes)\<bar>
           \<le> 1 / 2 + 3000 * (of_int bytes / of_int total_bytes) / 2 ^ 53"
proof -
  define q :: rat where "q = of_int bytes / of_int total_bytes"
  define d where "d = double_of_ratio (nat \<bar>bytes\<bar>) (nat total_bytes)"
  define v where "v = double_value d"
  define x where "x = double_value (times_100 d)"
  define n where "n = rat_of_nat (tenths (times_100 d))"
  define c :: rat where "c = 2 ^ 53"
  have c: "1 \<le> c" by (simp add: c_def)
  have q0: "0 \<le> q" using assms by (simp add: q_def)
  have qq: "rat_of_nat (nat \<bar>bytes\<bar>) / of_nat (nat total_bytes) = q"
    using assms by (simp add: q_def)
  have "\<bar>v - q\<bar> \<le> q / 2 ^ 53"
    using double_of_ratio_near [of "nat total_bytes" "nat \<bar>bytes\<bar>"] assms
    unfolding v_def d_def qq by simp
  then have v1: "\<bar>v - q\<bar> \<le> q / c" by (simp only: c_def)
  have "1 * q \<le> c * q" using q0 c by (intro mult_right_mono)
  then have qc: "q / c \<le> q" using c by (simp add: field_simps)
  from v1 qc have v3: "v \<le> 2 * q" by linarith
  have "\<bar>x - 100 * v\<bar> \<le> 100 * v / 2 ^ 53"
    unfolding x_def v_def by (rule times_100_near)
  then have x1: "\<bar>x - 100 * v\<bar> \<le> 100 * v / c" by (simp only: c_def)
  have "100 * v / c \<le> 100 * (2 * q) / c"
    using v3 c by (intro divide_right_mono mult_left_mono) simp_all
  with x1 have x2: "\<bar>x - 100 * v\<bar> \<le> 200 * (q / c)" by simp
  have n1: "\<bar>n - 10 * x\<bar> \<le> 1 / 2"
    unfolding n_def x_def by (rule tenths_near)
  have "\<bar>n - 1000 * q\<bar> \<le> 1 / 2 + 3000 * (q / c)"
    using n1 x2 v1 by linarith
  then show ?thesis
    by (simp add: n_def percent_double_def d_def q_def c_def)
qed

lemma foldl_plus: "foldl (\<lambda>a b. a + b) a xs = a + sum_list xs" for a :: int
  by (induction xs arbitrary: a) simp_all

lemma languages_total_eq: "languages_total languages = sum_list (map snd languages)"
proof -
  have "mset (map snd (object_entries languages)) = mset (map snd languages)"
    by (simp add: mset_object_entries)
  then have "sum_mset (mset (map snd (object_entries languages)))
               = sum_mset (mset (map snd languages))"
    by (rule arg_cong)
  then show ?thesis
    by (simp only: languages_total_def foldl_plus sum_mset_sum_list)
qed

lemma abs_sum_list_diff:
  fixes f g :: "'a \<Rightarrow> rat"
  shows "\<bar>sum_list (map f xs) - sum_list (map g xs)\<bar> \<le> sum_list (map (\<lambda>x. \<bar>f x - g x\<bar>) xs)"
proof (induction xs)
  case Nil
  show ?case by simp
next
  case (Cons x xs)
  then show ?case by simp
qed



lemma sum_list_shares:
  fixes xs :: "(string \<times> int) list" and c :: rat
  shows "sum_list (map (\<lambda>kv. of_int (snd kv) / c) xs) = of_int (sum_list (map snd xs)) / c"
  by (induction xs) (simp_all add: add_divide_distrib)

lemma below_half_more:
  fixes e a l :: rat
  shows "e < 1 / 2 \<Longrightarrow> a \<le> l / 2 + e \<Longrightarrow> 2 * a < l + 1"
  by linarith

lemma half_int: "2 * (a::int) < int k + 1 \<Longrightarrow> a \<le> int (k div 2)"
  by (simp add: zdiv_int)

lemma percent_tenths_sum:
  fixes languages :: "(string \<times> int) list"
  assumes "\<forall>kv \<in> set languages. 0 \<le> snd kv" and "0 < sum_list (map snd languages)"
  shows "\<bar>int (sum_list (map (\<lambda>kv. tenths (percent_double (snd kv) (sum_list (map snd languages))))
                     languages)) - 1000\<bar>
           \<le> int (length languages div 2)"
proof -
  define T where "T = sum_list (map snd languages)"
  define w where "w = (\<lambda>kv :: string \<times> int. rat_of_int (snd kv) / of_int T)"
  define f where "f = (\<lambda>kv :: string \<times> int. rat_of_nat (tenths (percent_double (snd kv) T)))"
  define e :: rat where "e = 3000 / 2 ^ 53"
  define S where "S = sum_list (map (\<lambda>kv. tenths (percent_double (snd kv) T)) languages)"
  have T: "0 < T" using assms(2) by (simp add: T_def)
  have e: "e < 1 / 2" by (simp add: e_def)
  have each: "\<bar>f kv - 1000 * w kv\<bar> \<le> 1 / 2 + e * w kv" if "kv \<in> set languages" for kv
  proof -
    have "0 \<le> snd kv" using that assms(1) by simp
    from percent_tenths_near [OF this T]
    have "\<bar>f kv - 1000 * w kv\<bar> \<le> 1 / 2 + 3000 * w kv / 2 ^ 53"
      by (simp only: f_def w_def)
    moreover have "3000 * w kv / 2 ^ 53 = e * w kv"
      by (simp only: e_def times_divide_eq_left)
    ultimately show ?thesis by (simp only:)
  qed
  have sw: "sum_list (map w languages) = 1"
    unfolding w_def sum_list_shares using T by (simp add: T_def)
  have sg: "sum_list (map (\<lambda>kv. 1000 * w kv) languages) = 1000"
    by (simp only: sum_list_const_mult sw mult_1_right)
  have sq: "sum_list (map (\<lambda>kv. 1 / 2 + e * w kv) languages) = of_nat (length languages) * (1 / 2) + e"
    by (simp only: sum_list_addf sum_list_const_mult sw sum_list_triv mult_1_right)
  have sf: "sum_list (map f languages) = of_nat S"
    unfolding f_def S_def by (induction languages) simp_all
  have "\<bar>sum_list (map f languages) - sum_list (map (\<lambda>kv. 1000 * w kv) languages)\<bar>
          \<le> sum_list (map (\<lambda>kv. \<bar>f kv - 1000 * w kv\<bar>) languages)"
    by (rule abs_sum_list_diff)
  also have "\<dots> \<le> sum_list (map (\<lambda>kv. 1 / 2 + e * w kv) languages)"
    using each by (intro sum_list_mono) simp
  finally have "\<bar>rat_of_nat S - 1000\<bar> \<le> of_nat (length languages) * (1 / 2) + e"
    by (simp only: sf sg sq)
  then have "\<bar>rat_of_nat S - 1000\<bar> \<le> of_nat (length languages) / 2 + e"
    by (simp only: times_divide_eq_right mult_1_right)
  with e have "2 * \<bar>rat_of_nat S - 1000\<bar> < of_nat (length languages) + 1"
    by (rule below_half_more)
  moreover have "2 * \<bar>rat_of_nat S - 1000\<bar> = rat_of_int (2 * \<bar>int S - 1000\<bar>)" by simp
  moreover have "rat_of_nat (length languages) + 1 = rat_of_int (int (length languages) + 1)" by simp
  ultimately have "rat_of_int (2 * \<bar>int S - 1000\<bar>) < rat_of_int (int (length languages) + 1)"
    by (simp only:)
  then have "2 * \<bar>int S - 1000\<bar> < int (length languages) + 1"
    by (simp only: of_int_less_iff)
  then have "\<bar>int S - 1000\<bar> \<le> int (length languages div 2)" by (rule half_int)
  then show ?thesis by (simp only: S_def T_def)
qed



text \<open>
  C5. When the language map is fetched and its byte counts are not negative and add up
  to less than \<open>2^53\<close> (where the model of the double arithmetic is exact),
  \<open>handleGetLanguages\<close> prints one entry for each language. With the total zero every
  percentage is the text \<open>0%\<close>. With the total positive a percentage is the decimal
  text, one digit after the point, of the number of tenths \<open>n\<close> that \<open>toFixed(1)\<close> takes
  from the double \<open>(bytes / total) * 100\<close>, followed by \<open>%\<close>; \<open>n / 10\<close> is within
  half a tenth (and the rounding error of the two double operations) of the exact
  percentage, and the percentages add up to 100 within half a tenth for each entry.
\<close>

theorem get_languages_percentages:
  assumes "template_text h (own_property args ''repo_name'') = Inr repo_name"
    and "ghFetch (language_maps up)
           (''/repos/'' @ GITHUB_USERNAME cfg @ ''/'' @ repo_name @ ''/languages'') = Inr languages"
    and "\<forall>kv \<in> set languages. 0 \<le> snd kv"
    and "sum_list (map snd languages) < 2 ^ 53"
  shows "handleGetLanguages h cfg up args =
           Inr (JSON_stringify
                  (JArr (map (\<lambda>kv. JObj [(''language'', JStr (fst kv)),
                                          (''bytes'', JNum (snd kv)),
                                          (''percentage'',
                                             JStr (percentage (snd kv)
                                                     (sum_list (map snd languages))))])
                             (object_entries languages)))) \<and>
         mset (object_entries languages) = mset languages \<and>
         (sum_list (map snd languages) = 0 \<longrightarrow>
            (\<forall>kv \<in> set languages. percentage (snd kv) (sum_list (map snd languages)) = ''0%'')) \<and>
         (0 < sum_list (map snd languages) \<longrightarrow>
            (\<forall>kv \<in> set languages.
               percentage (snd kv) (sum_list (map snd languages)) =
                 nat_digits (tenths (percent_double (snd kv) (sum_list (map snd languages))) div 10)
                 @ ''.''
                 @ [digit_char (tenths (percent_double (snd kv) (sum_list (map snd languages))) mod 10)]
                 @ ''%'' \<and>
               \<bar>rat_of_nat (tenths (percent_double (snd kv) (sum_list (map snd languages))))
                  - 1000 * (of_int (snd kv) / of_int (sum_list (map snd languages)))\<bar>
                 \<le> 1 / 2 + 3000 * (of_int (snd kv) / of_int (sum_list (map snd languages))) / 2 ^ 53) \<and>
            \<bar>int (sum_list (map (\<lambda>kv. tenths (percent_double (snd kv)
                                                  (sum_list (map snd languages))))
                               (object_entries languages))) - 1000\<bar>
              \<le> int (length languages div 2))"
proof (intro conjI impI ballI)
  have e: "languages_entry (sum_list (map snd languages)) =
             (\<lambda>kv. JObj [(''language'', JStr (fst kv)), (''bytes'', JNum (snd kv)),
                           (''percentage'',
                              JStr (percentage (snd kv) (sum_list (map snd languages))))])"
    by (rule ext) (simp add: languages_entry_def)
  show "handleGetLanguages h cfg up args =
           Inr (JSON_stringify
                  (JArr (map (\<lambda>kv. JObj [(''language'', JStr (fst kv)),
                                          (''bytes'', JNum (snd kv)),
                                          (''percentage'',
                                             JStr (percentage (snd kv)
                                                     (sum_list (map snd languages))))])
                             (object_entries languages))))"
    using assms(1,2) by (simp add: handleGetLanguages_def languages_total_eq e)
  show "mset (object_entries languages) = mset languages"
    by (rule mset_object_entries)
next
  fix kv
  assume "sum_list (map snd languages) = 0"
  then show "percentage (snd kv) (sum_list (map snd languages)) = ''0%''"
    by (simp add: percentage_def)
next
  fix kv
  assume t: "0 < sum_list (map snd languages)" and "kv \<in> set languages"
  then have b: "0 \<le> snd kv" using assms(3) by simp
  then show "percentage (snd kv) (sum_list (map snd languages)) =
                 nat_digits (tenths (percent_double (snd kv) (sum_list (map snd languages))) div 10)
                 @ ''.''
                 @ [digit_char (tenths (percent_double (snd kv) (sum_list (map snd languages))) mod 10)]
                 @ ''%''"
    using t by (simp add: percentage_def toFixed_1_def)
  show "\<bar>rat_of_nat (tenths (percent_double (snd kv) (sum_list (map snd languages))))
                  - 1000 * (of_int (snd kv) / of_int (sum_list (map snd languages)))\<bar>
                 \<le> 1 / 2 + 3000 * (of_int (snd kv) / of_int (sum_list (map snd languages))) / 2 ^ 53"
    using b t by (rule percent_tenths_near)
next
  assume t: "0 < sum_list (map snd languages)"
  have "mset (map (\<lambda>kv. tenths (percent_double (snd kv) (sum_list (map snd languages))))
                 (object_entries languages))
          = mset (map (\<lambda>kv. tenths (percent_double (snd kv) (sum_list (map snd languages))))
                 languages)"
    by (simp add: mset_object_entries)
  then have "sum_mset (mset (map (\<lambda>kv. tenths (percent_double (snd kv) (sum_list (map snd languages))))
                 (object_entries languages)))
          = sum_mset (mset (map (\<lambda>kv. tenths (percent_double (snd kv) (sum_list (map snd languages))))
                 languages))"
    by (rule arg_cong)
  then have "sum_list (map (\<lambda>kv. tenths (percent_double (snd kv) (sum_list (map snd languages))))
                 (object_entries languages))
          = sum_list (map (\<lambda>kv. tenths (percent_double (snd kv) (sum_list (map snd languages))))
                 languages)"
    by (simp only: sum_mset_sum_list)
  then show "\<bar>int (sum_list (map (\<lambda>kv. tenths (percent_double (snd kv)
                                                  (sum_list (map snd languages))))
                               (object_entries languages))) - 1000\<bar>
              \<le> int (length languages div 2)"
    using percent_tenths_sum [OF assms(3) t] by (simp only:)
qed

lemma sample_percentages: "percentage 3 4 = ''75.0%''" "percentage 1 4 = ''25.0%''"
  by (simp_all add: percentage_def percent_double_def times_100_def double_of_ratio_def
      bit_length.simps Let_def round_half_even_def tenths_def toFixed_1_def nat_digits.simps
      digit_char_def)

lemma sample_language_entries:
  "object_entries [(''Go'', 3 :: int), (''Shell'', 1)] = [(''Go'', 3), (''Shell'', 1)]"
  by (rule object_entries_plain) (simp add: is_array_index_def is_digit_def)

theorem get_languages_percentages_witness:
  "template_text ascii_host (own_property (JObj [(''repo_name'', JStr ''a'')]) ''repo_name'')
     = Inr ''a'' \<and>
   ghFetch (language_maps sample_upstream)
     (''/repos/'' @ GITHUB_USERNAME sample_config @ ''/'' @ ''a'' @ ''/languages'')
     = Inr [(''Go'', 3), (''Shell'', 1)] \<and>
   list_all (\<lambda>kv. 0 \<le> snd kv) [(''Go'', 3 :: int), (''Shell'', 1)] \<and>
   sum_list (map snd [(''Go'', 3 :: int), (''Shell'', 1)]) < 2 ^ 53 \<and>
   handleGetLanguages ascii_host sample_config sample_upstream (JObj [(''repo_name'', JStr ''a'')])
     = Inr (JSON_stringify
              (JArr [JObj [(''language'', JStr ''Go''), (''bytes'', JNum 3),
                           (''percentage'', JStr ''75.0%'')],
                     JObj [(''language'', JStr ''Shell''), (''bytes'', JNum 1),
                           (''percentage'', JStr ''25.0%'')]]))"
proof -
  have t: "template_text ascii_host (own_property (JObj [(''repo_name'', JStr ''a'')]) ''repo_name'')
             = Inr ''a''"
    by (simp add: template_text_def)
  have f: "ghFetch (language_maps sample_upstream)
             (''/repos/'' @ GITHUB_USERNAME sample_config @ ''/'' @ ''a'' @ ''/languages'')
           = Inr [(''Go'', 3), (''Shell'', 1)]"
    by (simp add: ghFetch_def sample_upstream_def response_ok_def)
  have n: "\<forall>kv \<in> set [(''Go'', 3 :: int), (''Shell'', 1)]. 0 \<le> snd kv"
    by simp
  have b: "sum_list (map snd [(''Go'', 3 :: int), (''Shell'', 1)]) < 2 ^ 53"
    by simp
  have "handleGetLanguages ascii_host sample_config sample_upstream
          (JObj [(''repo_name'', JStr ''a'')])
     = Inr (JSON_stringify
              (JArr [JObj [(''language'', JStr ''Go''), (''bytes'', JNum 3),
                           (''percentage'', JStr ''75.0%'')],
                     JObj [(''language'', JStr ''Shell''), (''bytes'', JNum 1),
                           (''percentage'', JStr ''25.0%'')]]))"
    using get_languages_percentages [OF t f n b]
    by (simp add: sample_language_entries sample_percentages)
  with t f show ?thesis by simp
qed

end
